theory Spec2Isabelle
  imports Main
begin

text \<open>
  A model of the multi-agent orchestration layer of the orchestrator service: the
  Supervisor (\<^verbatim>\<open>SupervisorAgent\<close>: routing table, parallel fan-out to the analysis
  backend, aggregation of the results), the route in front of it, and the A2A server
  (\<^verbatim>\<open>A2AServer\<close>: agent registry, task store with its asynchronous dispatch, and its own
  fan-out) of \<^verbatim>\<open>orchestrator/src/a2a/server.ts\<close>.  The analysis backend, Redis, the clock
  and the uuid generator are the environment: what they answer is an input of the model,
  and what the program asks of them is recorded as its effects.
\<close>

section \<open>JavaScript values\<close>

text \<open>
  The orchestrator handles request bodies and backend payloads of TypeScript type
  \<^verbatim>\<open>any\<close>: parsed JSON, plus \<^verbatim>\<open>undefined\<close> for an absent property.
  An object is its list of own properties in enumeration order, each key once.  A number
  is kept as the text JavaScript's conversion of numbers to strings gives it (so 1e21 is
  \<^verbatim>\<open>1e+21\<close>, one half is \<^verbatim>\<open>0.5\<close>, and both zeros are \<^verbatim>\<open>0\<close>): the program only
  tests numbers for truthiness, compares them by SameValueZero and inserts them into
  template literals, and each of the three is a function of that text.
\<close>

datatype jsval =
    Undefined
  | Null
  | Bool bool
  | Num string
  | Str string
  | Arr "jsval list"
  | Obj "(string \<times> jsval) list"

text \<open>A thrown value: its \<^verbatim>\<open>message\<close> and, for an axios error that carries an HTTP
  response, the body of that response (\<^verbatim>\<open>error.response.data\<close>).\<close>

datatype thrown = Thrown (message: string) (response_data: "jsval option")

text \<open>How an awaited \<^verbatim>\<open>axios.post\<close> settles: it resolves with \<^verbatim>\<open>response.data\<close>
  or rejects with an error.\<close>

datatype outcome = Resolved jsval | Rejected thrown

text \<open>What an \<^verbatim>\<open>async\<close> operation does for its caller.  \<open>Hangs\<close> is a promise that
  never settles (axios is called without a timeout).\<close>

datatype 'a completion = Returns 'a | Throws thrown | Hangs

fun truthy :: "jsval \<Rightarrow> bool" where
  "truthy Undefined = False"
| "truthy Null = False"
| "truthy (Bool b) = b"
| "truthy (Num t) = (t \<noteq> ''0'' \<and> t \<noteq> ''NaN'')"
| "truthy (Str s) = (s \<noteq> [])"
| "truthy (Arr xs) = True"
| "truthy (Obj kvs) = True"

text \<open>\<^verbatim>\<open>a || b\<close>\<close>

definition js_or :: "jsval \<Rightarrow> jsval \<Rightarrow> jsval" where
  "js_or a b = (if truthy a then a else b)"

definition TypeError :: "string \<Rightarrow> thrown" where
  "TypeError msg = Thrown msg None"

text \<open>\<^verbatim>\<open>v.p\<close> for a property name \<open>p\<close> that no built-in prototype defines (the code
  reads \<^verbatim>\<open>tools_used\<close>, \<^verbatim>\<open>error\<close>, \<^verbatim>\<open>analysis\<close>, \<^verbatim>\<open>result\<close>, \<^verbatim>\<open>caseId\<close>,
  \<^verbatim>\<open>caseText\<close>, \<^verbatim>\<open>text\<close>; \<^verbatim>\<open>name\<close> is read from parsed JSON, which holds no
  function).  Reading from \<^verbatim>\<open>undefined\<close> or \<^verbatim>\<open>null\<close> throws, with V8's message.\<close>

fun js_get :: "jsval \<Rightarrow> string \<Rightarrow> thrown + jsval" where
  "js_get Undefined p =
     Inl (TypeError (''Cannot read properties of undefined (reading '' @ [CHR 0x27] @ p @ [CHR 0x27] @ '')''))"
| "js_get Null p =
     Inl (TypeError (''Cannot read properties of null (reading '' @ [CHR 0x27] @ p @ [CHR 0x27] @ '')''))"
| "js_get (Obj kvs) p = Inr (case map_of kvs p of Some v \<Rightarrow> v | None \<Rightarrow> Undefined)"
| "js_get v p = Inr Undefined"

text \<open>\<^verbatim>\<open>v?.p\<close>\<close>

fun js_get_opt :: "jsval \<Rightarrow> string \<Rightarrow> jsval" where
  "js_get_opt (Obj kvs) p = (case map_of kvs p of Some v \<Rightarrow> v | None \<Rightarrow> Undefined)"
| "js_get_opt v p = Undefined"

fun is_primitive :: "jsval \<Rightarrow> bool" where
  "is_primitive (Arr xs) = False"
| "is_primitive (Obj kvs) = False"
| "is_primitive v = True"

text \<open>\<^verbatim>\<open>xs.includes(v)\<close> compares with SameValueZero: primitives by value, objects
  and arrays by identity.  Every object met here is a fresh result of JSON parsing that
  is looked at once, so an object or array is never found.\<close>

definition js_includes :: "jsval list \<Rightarrow> jsval \<Rightarrow> bool" where
  "js_includes xs v = (is_primitive v \<and> v \<in> set xs)"

subsection \<open>Conversion to string\<close>

definition digit_char :: "nat \<Rightarrow> char" where
  "digit_char d = ''0123456789'' ! d"

function show_nat :: "nat \<Rightarrow> string" where
  "show_nat n = (if n < 10 then [digit_char n] else show_nat (n div 10) @ [digit_char (n mod 10)])"
  by pat_completeness auto
termination
  by (relation "measure id") auto

declare show_nat.simps [simp del]

text \<open>\<^verbatim>\<open>sections.join(sep)\<close> on a list of strings\<close>

fun join :: "string \<Rightarrow> string list \<Rightarrow> string" where
  "join sep [] = []"
| "join sep [x] = x"
| "join sep (x # y # ys) = x @ sep @ join sep (y # ys)"

text \<open>The string a template literal \<^verbatim>\<open>`${v}`\<close> inserts (ToString).  An array joins
  its elements with a comma, \<^verbatim>\<open>null\<close> and \<^verbatim>\<open>undefined\<close> elements as the empty string.
  An object is \<^verbatim>\<open>[object Object]\<close>, unless it has an own property \<^verbatim>\<open>toString\<close>:
  parsed JSON holds no function, so the conversion finds nothing to call and throws
  (\<open>None\<close>).\<close>

fun js_to_string :: "jsval \<Rightarrow> string option" where
  "js_to_string Undefined = Some ''undefined''"
| "js_to_string Null = Some ''null''"
| "js_to_string (Bool b) = Some (if b then ''true'' else ''false'')"
| "js_to_string (Num t) = Some t"
| "js_to_string (Str s) = Some s"
| "js_to_string (Arr xs) =
     map_option (join '','')
       (those (map (\<lambda>x. if x = Undefined \<or> x = Null then Some [] else js_to_string x) xs))"
| "js_to_string (Obj kvs) =
     (if ''toString'' \<in> fst ` set kvs then None else Some ''[object Object]'')"

definition cannot_convert :: thrown where
  "cannot_convert = TypeError ''Cannot convert object to primitive value''"

subsection \<open>Objects used as dictionaries\<close>

text \<open>
  Both fan-outs collect their results in an object made by the literal \<^verbatim>\<open>{}\<close> and
  written by \<^verbatim>\<open>results[k] = v\<close>.  Such an object is its prototype and its own
  properties in enumeration order: the keys that are array indices first, by ascending
  value, then the other keys in the order they were created.
\<close>

definition is_digit :: "char \<Rightarrow> bool" where
  "is_digit c = (c \<in> set ''0123456789'')"

definition digit_value :: "char \<Rightarrow> int" where
  "digit_value c = int (length (takeWhile (\<lambda>d. d \<noteq> c) ''0123456789''))"

definition decimal_value :: "string \<Rightarrow> int" where
  "decimal_value k = foldl (\<lambda>n c. 10 * n + digit_value c) 0 k"

text \<open>An array index: the canonical decimal text of a number below 4294967295.\<close>

definition is_array_index :: "string \<Rightarrow> bool" where
  "is_array_index k =
     (k \<noteq> [] \<and> list_all is_digit k \<and> (hd k \<noteq> CHR ''0'' \<or> k = ''0'')
      \<and> decimal_value k < 4294967295)"

text \<open>Writing an own property whose key is there already, or is not an array index: an
  existing key keeps its place, a new key goes last.\<close>

fun obj_set :: "(string \<times> jsval) list \<Rightarrow> string \<Rightarrow> jsval \<Rightarrow> (string \<times> jsval) list" where
  "obj_set [] k v = [(k, v)]"
| "obj_set ((k', v') # kvs) k v =
     (if k' = k then (k, v) # kvs else (k', v') # obj_set kvs k v)"

text \<open>Creating an own property whose key is an array index: it goes after the smaller
  indices and before everything else.\<close>

fun insert_index :: "(string \<times> jsval) list \<Rightarrow> string \<Rightarrow> jsval \<Rightarrow> (string \<times> jsval) list" where
  "insert_index [] k v = [(k, v)]"
| "insert_index ((k', v') # kvs) k v =
     (if is_array_index k' \<and> decimal_value k' < decimal_value k
      then (k', v') # insert_index kvs k v
      else (k, v) # (k', v') # kvs)"

definition put_own :: "(string \<times> jsval) list \<Rightarrow> string \<Rightarrow> jsval \<Rightarrow> (string \<times> jsval) list" where
  "put_own props k v =
     (if is_array_index k \<and> k \<notin> fst ` set props then insert_index props k v
      else obj_set props k v)"

text \<open>The prototype of such an object: \<^verbatim>\<open>Object.prototype\<close> at first; the assignments
  below can make it \<^verbatim>\<open>null\<close> or a value that came from the backend (an object or an
  array out of JSON, whose own prototype chain ends in \<^verbatim>\<open>Object.prototype\<close>).\<close>

datatype prototype = ObjectPrototype | NullPrototype | ValuePrototype jsval

text \<open>The empty object literal.\<close>

definition new_object :: "prototype \<times> (string \<times> jsval) list" where
  "new_object = (ObjectPrototype, [])"

text \<open>Whether looking \<^verbatim>\<open>__proto__\<close> up along the prototype chain ends at the accessor
  of \<^verbatim>\<open>Object.prototype\<close>: not when the chain is empty, and not when an object out of
  JSON with an own property of that name comes first.\<close>

definition setter_reached :: "prototype \<Rightarrow> bool" where
  "setter_reached proto =
     (case proto of
        ObjectPrototype \<Rightarrow> True
      | NullPrototype \<Rightarrow> False
      | ValuePrototype (Obj kvs) \<Rightarrow> ''__proto__'' \<notin> fst ` set kvs
      | ValuePrototype v \<Rightarrow> True)"

text \<open>
  \<^verbatim>\<open>obj[k] = v\<close>.  For every key but \<^verbatim>\<open>__proto__\<close> it writes the own property.  For
  \<^verbatim>\<open>__proto__\<close>, unless the object has an own property of that name, the accessor that
  \<^verbatim>\<open>Object.prototype\<close> has under that name is called when the lookup reaches it: it
  makes an object, an array or \<^verbatim>\<open>null\<close> the prototype, ignores any other value, and
  adds no own property.
\<close>

definition js_assign ::
  "prototype \<times> (string \<times> jsval) list \<Rightarrow> string \<Rightarrow> jsval \<Rightarrow> prototype \<times> (string \<times> jsval) list" where
  "js_assign obj k v =
     (case obj of (proto, props) \<Rightarrow>
        if k = ''__proto__'' \<and> k \<notin> fst ` set props \<and> setter_reached proto then
          (case v of
             Obj kvs \<Rightarrow> (ValuePrototype v, props)
           | Arr xs \<Rightarrow> (ValuePrototype v, props)
           | Null \<Rightarrow> (NullPrototype, props)
           | _ \<Rightarrow> (proto, props))
        else (proto, put_own props k v))"

section \<open>Routing table (SupervisorAgent.routeTask)\<close>

definition routingMap :: "(string \<times> string list) list" where
  "routingMap =
    [(''full_analysis'',
        [''legal-analyst'', ''research-agent'', ''loophole-detector'', ''risk-assessor'']),
     (''case_analysis'', [''legal-analyst'', ''research-agent'']),
     (''loophole_detection'', [''loophole-detector'', ''research-agent'']),
     (''risk_assessment'', [''risk-assessor'', ''legal-analyst'']),
     (''contract_review'', [''contract-reviewer'', ''risk-assessor'']),
     (''compliance_check'', [''contract-reviewer'']),
     (''legal_research'', [''research-agent'']),
     (''precedent_search'', [''research-agent''])]"

text \<open>\<^verbatim>\<open>routingMap\<close> is an object literal, so \<^verbatim>\<open>routingMap[analysisType]\<close> also
  finds what the literal inherits from \<^verbatim>\<open>Object.prototype\<close>: functions, and the
  prototype itself under \<^verbatim>\<open>__proto__\<close>.  All of them are truthy and none is an array.\<close>

definition object_prototype_members :: "string list" where
  "object_prototype_members =
    [''constructor'', ''__proto__'', ''hasOwnProperty'', ''isPrototypeOf'',
     ''propertyIsEnumerable'', ''toLocaleString'', ''toString'', ''valueOf'',
     ''__defineGetter__'', ''__defineSetter__'', ''__lookupGetter__'', ''__lookupSetter__'']"

datatype route = Agents "string list" | Inherited string

definition routeTask :: "string \<Rightarrow> route" where
  "routeTask analysisType =
     (case map_of routingMap analysisType of
        Some ids \<Rightarrow> Agents ids
      | None \<Rightarrow>
          if analysisType \<in> set object_prototype_members then Inherited analysisType
          else Agents [''legal-analyst''])"

section \<open>Supervisor (SupervisorAgent)\<close>

text \<open>
  The result record.  \<open>results\<close> is the own properties of the results object, which is
  what \<^verbatim>\<open>Object.entries\<close>, \<^verbatim>\<open>Object.values\<close> and the JSON of the response show of it.
  \<open>processingTime\<close> is kept in milliseconds (the source divides the difference of two
  \<^verbatim>\<open>Date.now()\<close> readings by 1000).  The object returned by the A2A server's
  \<^verbatim>\<open>orchestrateAnalysis\<close> has the first five fields only.
\<close>

record orchestration =
  taskId :: string
  agents :: "string list"
  results :: "(string \<times> jsval) list"
  processingTime :: int
  toolsUsed :: "jsval list"

record OrchestrationResult = orchestration +
  aggregatedAnalysis :: string

text \<open>The messages the Supervisor publishes, before \<^verbatim>\<open>JSON.stringify\<close>: the progress of
  one agent (task id, agent id, status, time) and the completion of an orchestration (task
  id, processing time, number of agents).\<close>

datatype message =
    TaskProgress string string string int
  | OrchestrationComplete string int nat

text \<open>What an operation does to the outside: HTTP calls to the analysis backend (tagged
  with the agent or analysis type they are made for), Redis publishes and cache writes
  (key, value, time to live).\<close>

datatype effect =
    BackendCall string jsval
  | Publish string message
  | CacheSet string OrchestrationResult nat

text \<open>
  The environment of one fan-out.  The calls are issued together and settle in an order
  the program does not choose: \<open>settle_order\<close> lists the calls in the order they settle (a
  call settles at its first occurrence; a call that is not listed never settles) and
  \<open>reply\<close> says how each one settles.  \<open>json_stringify\<close> is the runtime's
  \<^verbatim>\<open>JSON.stringify(v, null, 2)\<close>.
\<close>

record 'k fanout_env =
  new_uuid :: string
  start_time :: int
  end_time :: int
  settle_time :: "'k \<Rightarrow> int"
  reply :: "'k \<Rightarrow> outcome"
  settle_order :: "'k list"
  json_stringify :: "jsval \<Rightarrow> string"

definition settled :: "'k list \<Rightarrow> 'k list \<Rightarrow> 'k list" where
  "settled issued order = filter (\<lambda>k. k \<in> set issued) (rev (remdups (rev order)))"

subsection \<open>aggregateResults\<close>

text \<open>\<^verbatim>\<open>Object.entries(results).filter(([_, result]) => keep(result.error))\<close>\<close>

fun filter_entries ::
  "(jsval \<Rightarrow> bool) \<Rightarrow> (string \<times> jsval) list \<Rightarrow> thrown + (string \<times> jsval) list" where
  "filter_entries keep [] = Inr []"
| "filter_entries keep ((agentId, result) # rest) =
     (case js_get result ''error'' of
        Inl e \<Rightarrow> Inl e
      | Inr err \<Rightarrow>
          (case filter_entries keep rest of
             Inl e \<Rightarrow> Inl e
           | Inr kept \<Rightarrow> Inr (if keep err then (agentId, result) # kept else kept)))"

text \<open>\<^verbatim>\<open>typeof v === 'string' ? v : JSON.stringify(v, null, 2)\<close>\<close>

definition render :: "(jsval \<Rightarrow> string) \<Rightarrow> jsval \<Rightarrow> string" where
  "render stringify v = (case v of Str s \<Rightarrow> s | _ \<Rightarrow> stringify v)"

text \<open>The loop over \<^verbatim>\<open>successfulAgents\<close>, pushing onto \<^verbatim>\<open>sections\<close>.\<close>

fun push_successful ::
  "(jsval \<Rightarrow> string) \<Rightarrow> (string \<times> jsval) list \<Rightarrow> string list \<Rightarrow> thrown + string list" where
  "push_successful stringify [] sections = Inr sections"
| "push_successful stringify ((agentId, result) # rest) sections =
     (case js_get result ''analysis'' of
        Inl e \<Rightarrow> Inl e
      | Inr analysis \<Rightarrow>
          if truthy analysis then
            push_successful stringify rest
              (sections @ [''### '' @ agentId, render stringify analysis, ''''])
          else
            (case js_get result ''result'' of
               Inl e \<Rightarrow> Inl e
             | Inr res \<Rightarrow>
                 if truthy res then
                   push_successful stringify rest
                     (sections @ [''### '' @ agentId, render stringify res, ''''])
                 else push_successful stringify rest (sections @ [''### '' @ agentId, ''''])))"

text \<open>The loop over \<^verbatim>\<open>failedAgents\<close>.\<close>

fun push_failed :: "(string \<times> jsval) list \<Rightarrow> string list \<Rightarrow> thrown + string list" where
  "push_failed [] sections = Inr sections"
| "push_failed ((agentId, result) # rest) sections =
     (case js_get result ''error'' of
        Inl e \<Rightarrow> Inl e
      | Inr err \<Rightarrow>
          (case js_to_string err of
             None \<Rightarrow> Inl cannot_convert
           | Some text \<Rightarrow> push_failed rest (sections @ [''- **'' @ agentId @ ''**: '' @ text])))"

definition aggregate_sections ::
  "(jsval \<Rightarrow> string) \<Rightarrow> (string \<times> jsval) list \<Rightarrow> string \<Rightarrow> thrown + string list" where
  "aggregate_sections stringify res analysisType =
     (case filter_entries (\<lambda>err. \<not> truthy err) res of
        Inl e \<Rightarrow> Inl e
      | Inr successfulAgents \<Rightarrow>
     (case filter_entries truthy res of
        Inl e \<Rightarrow> Inl e
      | Inr failedAgents \<Rightarrow>
     (case push_successful stringify successfulAgents
             [''## Multi-Agent '' @ analysisType @ '' Analysis Summary'',
              ''**Agents consulted:** '' @ show_nat (length res) @ '' (''
                @ show_nat (length successfulAgents) @ '' successful, ''
                @ show_nat (length failedAgents) @ '' failed)'',
              ''''] of
        Inl e \<Rightarrow> Inl e
      | Inr sections \<Rightarrow>
          if length failedAgents > 0 then push_failed failedAgents (sections @ [''### Failed Agents''])
          else Inr sections)))"

definition aggregateResults ::
  "(jsval \<Rightarrow> string) \<Rightarrow> (string \<times> jsval) list \<Rightarrow> string \<Rightarrow> thrown + string" where
  "aggregateResults stringify res analysisType =
     (case aggregate_sections stringify res analysisType of
        Inl e \<Rightarrow> Inl e
      | Inr sections \<Rightarrow> Inr (join [CHR 0x0A] sections))"

subsection \<open>orchestrate\<close>

text \<open>The \<^verbatim>\<open>forEach\<close> over \<^verbatim>\<open>response.data.tools_used\<close>: it pushes onto the shared
  \<^verbatim>\<open>toolsUsed\<close> array, so what was pushed before a throw stays pushed.\<close>

fun forEach_tool :: "jsval list \<Rightarrow> jsval list \<Rightarrow> jsval list \<times> thrown option" where
  "forEach_tool [] tools = (tools, None)"
| "forEach_tool (tool # rest) tools =
     (case js_get tool ''name'' of
        Inl e \<Rightarrow> (tools, Some e)
      | Inr name \<Rightarrow>
          forEach_tool rest (if js_includes tools name then tools else tools @ [name]))"

definition collect_tools :: "jsval \<Rightarrow> jsval list \<Rightarrow> jsval list \<times> thrown option" where
  "collect_tools data tools =
     (case js_get data ''tools_used'' of
        Inl e \<Rightarrow> (tools, Some e)
      | Inr tools_used \<Rightarrow>
          if truthy tools_used then
            (case tools_used of
               Arr ts \<Rightarrow> forEach_tool ts tools
             | _ \<Rightarrow>
                 (tools, Some (TypeError ''response.data.tools_used.forEach is not a function'')))
          else (tools, None))"

text \<open>The \<^verbatim>\<open>catch\<close> block of the per-agent closure.\<close>

definition failure_entry :: "thrown \<Rightarrow> jsval" where
  "failure_entry e = Obj [(''error'', Str (message e)), (''status'', Str ''failed'')]"

text \<open>What the closure of one agent does once its backend call has settled.\<close>

definition settle_agent ::
  "string fanout_env \<Rightarrow> string \<Rightarrow>
   (prototype \<times> (string \<times> jsval) list) \<times> jsval list \<times> effect list \<Rightarrow>
   (prototype \<times> (string \<times> jsval) list) \<times> jsval list \<times> effect list" where
  "settle_agent env agentId acc =
     (case acc of (res, tools, fx) \<Rightarrow>
       (case reply env agentId of
          Rejected e \<Rightarrow> (js_assign res agentId (failure_entry e), tools, fx)
        | Resolved data \<Rightarrow>
            (case collect_tools data tools of
               (tools', Some e) \<Rightarrow>
                 (js_assign (js_assign res agentId data) agentId (failure_entry e), tools', fx)
             | (tools', None) \<Rightarrow>
                 (js_assign res agentId data, tools',
                  fx @ [Publish ''a2a:task_progress''
                          (TaskProgress (new_uuid env) agentId ''completed''
                             (settle_time env agentId))]))))"

definition truthy_opt :: "string option \<Rightarrow> bool" where
  "truthy_opt s = (case s of None \<Rightarrow> False | Some t \<Rightarrow> t \<noteq> [])"

definition analysis_payload :: "string \<Rightarrow> string \<Rightarrow> string option \<Rightarrow> jsval" where
  "analysis_payload caseText analysisType caseId =
     (case caseId of
        Some c \<Rightarrow>
          if c \<noteq> [] then Obj [(''analysis_type'', Str analysisType), (''case_id'', Str c)]
          else Obj [(''analysis_type'', Str analysisType), (''input_text'', Str caseText)]
      | None \<Rightarrow> Obj [(''analysis_type'', Str analysisType), (''input_text'', Str caseText)])"

definition orchestrate ::
  "string fanout_env \<Rightarrow> string \<Rightarrow> string \<Rightarrow> string option \<Rightarrow>
   OrchestrationResult completion \<times> effect list" where
  "orchestrate env caseText analysisType caseId =
     (case routeTask analysisType of
        Inherited p \<Rightarrow> (Throws (TypeError ''assignedAgents.join is not a function''), [])
      | Agents assignedAgents \<Rightarrow>
          (case foldl (\<lambda>acc agentId. settle_agent env agentId acc)
                  (new_object, [], map (\<lambda>agentId. BackendCall agentId
                                  (analysis_payload caseText analysisType caseId)) assignedAgents)
                  (settled assignedAgents (settle_order env)) of
             (res, tools, fx) \<Rightarrow>
               if \<not> set assignedAgents \<subseteq> set (settle_order env) then (Hangs, fx)
               else
                 (case aggregateResults (json_stringify env) (snd res) analysisType of
                    Inl e \<Rightarrow> (Throws e, fx)
                  | Inr aggregated \<Rightarrow>
                      (let orchestrationResult =
                             \<lparr>taskId = new_uuid env, agents = assignedAgents, results = snd res,
                              processingTime = end_time env - start_time env,
                              toolsUsed = tools, aggregatedAnalysis = aggregated\<rparr>
                       in (Returns orchestrationResult,
                           fx @ [CacheSet (''orchestration:'' @ new_uuid env) orchestrationResult 3600,
                                 Publish ''a2a:orchestration_complete''
                                   (OrchestrationComplete (new_uuid env)
                                      (end_time env - start_time env)
                                      (length assignedAgents))])))))"

subsection \<open>POST /api/agents/orchestrate\<close>

text \<open>The request body, with the fields the route destructures; a field is absent
  (\<open>None\<close>) or a string, as \<^verbatim>\<open>orchestrate\<close> declares its parameters.\<close>

record orchestrate_body =
  body_caseText :: "string option"
  body_analysisType :: "string option"
  body_caseId :: "string option"

datatype 'a http_response = Json nat 'a | JsonError nat string | NoResponse

definition or_default :: "string option \<Rightarrow> string \<Rightarrow> string" where
  "or_default s d = (case s of None \<Rightarrow> d | Some t \<Rightarrow> if t \<noteq> [] then t else d)"

definition post_agents_orchestrate ::
  "string fanout_env \<Rightarrow> orchestrate_body \<Rightarrow> OrchestrationResult http_response \<times> effect list" where
  "post_agents_orchestrate env body =
     (if \<not> truthy_opt (body_caseText body) \<and> \<not> truthy_opt (body_caseId body)
      then (JsonError 400 ''Either caseText or caseId is required'', [])
      else
        (case orchestrate env (or_default (body_caseText body) [])
                (or_default (body_analysisType body) ''full_analysis'') (body_caseId body) of
           (Returns r, fx) \<Rightarrow> (Json 200 r, fx)
         | (Throws e, fx) \<Rightarrow> (JsonError 500 ''Orchestration failed'', fx)
         | (Hangs, fx) \<Rightarrow> (NoResponse, fx)))"

section \<open>A2A server (A2AServer)\<close>

subsection \<open>orchestrateAnalysis\<close>

text \<open>The calls are named by their position in \<^verbatim>\<open>analysisTypes\<close>, since the same type
  may be asked for twice.\<close>

definition settle_type ::
  "nat fanout_env \<Rightarrow> string list \<Rightarrow> nat \<Rightarrow>
   prototype \<times> (string \<times> jsval) list \<Rightarrow> prototype \<times> (string \<times> jsval) list" where
  "settle_type env analysisTypes i res =
     (case reply env i of
        Resolved data \<Rightarrow> js_assign res (analysisTypes ! i) data
      | Rejected e \<Rightarrow> js_assign res (analysisTypes ! i) (Obj [(''error'', Str (message e))]))"

text \<open>\<^verbatim>\<open>.filter((r) => r.tools_used)\<close>\<close>

fun filter_tools_used :: "jsval list \<Rightarrow> thrown + jsval list" where
  "filter_tools_used [] = Inr []"
| "filter_tools_used (r # rs) =
     (case js_get r ''tools_used'' of
        Inl e \<Rightarrow> Inl e
      | Inr tools_used \<Rightarrow>
          (case filter_tools_used rs of
             Inl e \<Rightarrow> Inl e
           | Inr kept \<Rightarrow> Inr (if truthy tools_used then r # kept else kept)))"

text \<open>\<^verbatim>\<open>.map((t) => t.name)\<close>\<close>

fun map_names :: "jsval list \<Rightarrow> thrown + jsval list" where
  "map_names [] = Inr []"
| "map_names (t # ts) =
     (case js_get t ''name'' of
        Inl e \<Rightarrow> Inl e
      | Inr name \<Rightarrow> (case map_names ts of Inl e \<Rightarrow> Inl e | Inr names \<Rightarrow> Inr (name # names)))"

text \<open>\<^verbatim>\<open>.flatMap((r) => r.tools_used.map(...))\<close>\<close>

fun flatMap_names :: "jsval list \<Rightarrow> thrown + jsval list" where
  "flatMap_names [] = Inr []"
| "flatMap_names (r # rs) =
     (case js_get r ''tools_used'' of
        Inl e \<Rightarrow> Inl e
      | Inr (Arr ts) \<Rightarrow>
          (case map_names ts of
             Inl e \<Rightarrow> Inl e
           | Inr names \<Rightarrow>
               (case flatMap_names rs of Inl e \<Rightarrow> Inl e | Inr others \<Rightarrow> Inr (names @ others)))
      | Inr _ \<Rightarrow> Inl (TypeError ''r.tools_used.map is not a function''))"

definition orchestrateAnalysis ::
  "nat fanout_env \<Rightarrow> string \<Rightarrow> string list \<Rightarrow> string option \<Rightarrow>
   orchestration completion \<times> effect list" where
  "orchestrateAnalysis env caseText analysisTypes caseId =
     (let calls = map (\<lambda>t. BackendCall t (analysis_payload caseText t caseId)) analysisTypes;
          res = foldl (\<lambda>acc i. settle_type env analysisTypes i acc) new_object
                  (settled [0..<length analysisTypes] (settle_order env))
      in if \<not> set [0..<length analysisTypes] \<subseteq> set (settle_order env) then (Hangs, calls)
         else
           (case filter_tools_used (map snd (snd res)) of
              Inl e \<Rightarrow> (Throws e, calls)
            | Inr reporting \<Rightarrow>
                (case flatMap_names reporting of
                   Inl e \<Rightarrow> (Throws e, calls)
                 | Inr names \<Rightarrow>
                     (Returns \<lparr>taskId = new_uuid env, agents = analysisTypes, results = snd res,
                               processingTime = end_time env - start_time env,
                               toolsUsed = names\<rparr>,
                      calls))))"

subsection \<open>Registry and task store\<close>

datatype agent_status = online | offline | busy

record A2AAgentCard =
  card_id :: string
  card_name :: string
  card_description :: string
  capabilities :: "string list"
  endpoint :: string
  card_status :: agent_status
  card_tools :: "string list"

datatype task_status = pending | in_progress | completed | failed

text \<open>A task.  Its id is the number of the \<^verbatim>\<open>uuidv4()\<close> call that made it: the n-th
  call returns a value no earlier call returned.  Times are clock readings.\<close>

record A2ATask =
  t_id :: nat
  t_agentId :: string
  t_type :: string
  t_input :: jsval
  t_status :: task_status
  t_result :: "jsval option"
  t_error :: "jsval option"
  t_createdAt :: nat
  t_completedAt :: "nat option"

text \<open>What the server does, in program order: every assignment to a task's
  \<^verbatim>\<open>status\<close> (the creation with \<^verbatim>\<open>status: 'pending'\<close> included), every
  \<^verbatim>\<open>axios.post\<close> to the analysis backend with the task it is made for, and every Redis
  publish with the task as it is when published.\<close>

datatype a2a_effect =
    StatusWrite nat task_status
  | AxiosPost nat jsval
  | RedisPublish string A2ATask

text \<open>The server: its two maps, the tasks whose \<^verbatim>\<open>processTask\<close> is suspended at
  \<^verbatim>\<open>await axios.post\<close>, what it has done so far, the clock and the number of uuids
  generated.\<close>

record A2AServer =
  server_agents :: "string \<rightharpoonup> A2AAgentCard"
  server_tasks :: "nat \<rightharpoonup> A2ATask"
  awaiting :: "nat list"
  trace :: "a2a_effect list"
  clock :: nat
  uuids :: nat

definition BACKEND_URL :: string where
  "BACKEND_URL = ''http://backend:8000''"

definition defaultAgents :: "A2AAgentCard list" where
  "defaultAgents =
    [\<lparr>card_id = ''legal-analyst'', card_name = ''Legal Analysis Agent'',
      card_description = ''Comprehensive legal case analysis with ReAct pattern'',
      capabilities = [''case_analysis'', ''full_analysis'', ''legal_research''],
      endpoint = BACKEND_URL @ ''/api/analyses/'', card_status = online,
      card_tools = [''rag_search_tool'', ''tavily_web_search_tool'', ''analyze_loopholes_tool'',
                    ''risk_assessment_tool'']\<rparr>,
     \<lparr>card_id = ''research-agent'', card_name = ''Legal Research Agent'',
      card_description = ''Searches precedents and legal databases'',
      capabilities = [''precedent_search'', ''legal_research'', ''web_search''],
      endpoint = BACKEND_URL @ ''/api/analyses/'', card_status = online,
      card_tools = [''rag_search_tool'', ''tavily_web_search_tool'']\<rparr>,
     \<lparr>card_id = ''loophole-detector'', card_name = ''Loophole Detection Agent'',
      card_description = ''Identifies legal loopholes and weaknesses'',
      capabilities = [''loophole_detection'', ''weakness_analysis''],
      endpoint = BACKEND_URL @ ''/api/analyses/'', card_status = online,
      card_tools = [''analyze_loopholes_tool'', ''rag_search_tool'']\<rparr>,
     \<lparr>card_id = ''risk-assessor'', card_name = ''Risk Assessment Agent'',
      card_description = ''Evaluates legal risks and outcome probabilities'',
      capabilities = [''risk_assessment'', ''probability_estimation''],
      endpoint = BACKEND_URL @ ''/api/analyses/'', card_status = online,
      card_tools = [''risk_assessment_tool'']\<rparr>,
     \<lparr>card_id = ''contract-reviewer'', card_name = ''Contract Review Agent'',
      card_description = ''Reviews contracts for issues and compliance'',
      capabilities = [''contract_review'', ''compliance_check''],
      endpoint = BACKEND_URL @ ''/api/analyses/'', card_status = online,
      card_tools = [''contract_review_tool'', ''compliance_check_tool'']\<rparr>,
     \<lparr>card_id = ''supervisor'', card_name = ''Supervisor Agent'',
      card_description = ''Coordinates multi-agent workflows and aggregates results'',
      capabilities = [''orchestration'', ''aggregation'', ''routing''],
      endpoint = [], card_status = online, card_tools = []\<rparr>]"

text \<open>The constructor: empty maps, then \<^verbatim>\<open>registerDefaultAgents\<close>.\<close>

definition new_server :: "nat \<Rightarrow> A2AServer" where
  "new_server now =
     \<lparr>server_agents = foldl (\<lambda>m agent. m(card_id agent \<mapsto> agent)) Map.empty defaultAgents,
      server_tasks = Map.empty, awaiting = [], trace = [], clock = now, uuids = 0\<rparr>"


text \<open>Mutation of a task object that is in the store.\<close>

definition update_task :: "nat \<Rightarrow> (A2ATask \<Rightarrow> A2ATask) \<Rightarrow> A2AServer \<Rightarrow> A2AServer" where
  "update_task tid f s =
     (case server_tasks s tid of
        None \<Rightarrow> s
      | Some task \<Rightarrow> s\<lparr>server_tasks := (server_tasks s)(tid \<mapsto> f task)\<rparr>)"

text \<open>\<^verbatim>\<open>task.status = st\<close>\<close>

definition assign_status :: "nat \<Rightarrow> task_status \<Rightarrow> A2AServer \<Rightarrow> A2AServer" where
  "assign_status tid st s =
     (update_task tid (\<lambda>task. task\<lparr>t_status := st\<rparr>) s)\<lparr>trace := trace s @ [StatusWrite tid st]\<rparr>"

subsection \<open>processTask\<close>

text \<open>The argument of \<^verbatim>\<open>axios.post\<close>; reading \<^verbatim>\<open>task.input.caseId\<close> throws when the
  request had no \<^verbatim>\<open>input\<close>.\<close>

definition task_request :: "A2ATask \<Rightarrow> thrown + jsval" where
  "task_request task =
     (case js_get (t_input task) ''caseId'' of
        Inl e \<Rightarrow> Inl e
      | Inr case_id \<Rightarrow>
     (case js_get (t_input task) ''caseText'' of
        Inl e \<Rightarrow> Inl e
      | Inr caseText \<Rightarrow>
     (case js_get (t_input task) ''text'' of
        Inl e \<Rightarrow> Inl e
      | Inr txt \<Rightarrow>
          Inr (Obj [(''case_id'', case_id),
                    (''analysis_type'',
                       Str (if t_type task \<noteq> [] then t_type task else ''full_analysis'')),
                    (''input_text'', js_or caseText (js_or txt (t_input task)))]))))"

text \<open>The \<^verbatim>\<open>catch\<close> block:
  \<^verbatim>\<open>task.error = error.response?.data?.error || error.message\<close>.\<close>

definition processTask_catch :: "nat \<Rightarrow> thrown \<Rightarrow> A2AServer \<Rightarrow> A2AServer" where
  "processTask_catch tid e s =
     update_task tid
       (\<lambda>task. task\<lparr>t_error :=
          Some (js_or (case response_data e of None \<Rightarrow> Undefined | Some d \<Rightarrow> js_get_opt d ''error'')
                      (Str (message e)))\<rparr>)
       (assign_status tid failed s)"

text \<open>\<^verbatim>\<open>processTask\<close> up to its \<^verbatim>\<open>await\<close>: an \<^verbatim>\<open>async\<close> function runs in its
  caller's turn until it first awaits.\<close>

definition processTask :: "nat \<Rightarrow> A2AServer \<Rightarrow> A2AServer" where
  "processTask tid s0 =
     (let s = assign_status tid in_progress s0 in
      case server_tasks s tid of
        None \<Rightarrow> s
      | Some task \<Rightarrow>
          (case server_agents s (t_agentId task) of
             None \<Rightarrow> processTask_catch tid (Thrown (''Agent not found: '' @ t_agentId task) None) s
           | Some agent \<Rightarrow>
               (case task_request task of
                  Inl e \<Rightarrow> processTask_catch tid e s
                | Inr payload \<Rightarrow>
                    s\<lparr>awaiting := awaiting s @ [tid], trace := trace s @ [AxiosPost tid payload]\<rparr>)))"

text \<open>\<^verbatim>\<open>processTask\<close> from its \<^verbatim>\<open>await\<close> on, once the call has settled.\<close>

definition processTask_resume :: "nat \<Rightarrow> outcome \<Rightarrow> A2AServer \<Rightarrow> A2AServer" where
  "processTask_resume tid settled_as s =
     (case settled_as of
        Rejected e \<Rightarrow> processTask_catch tid e s
      | Resolved data \<Rightarrow>
          (let s1 = update_task tid (\<lambda>task. task\<lparr>t_result := Some data\<rparr>) s;
               s2 = assign_status tid completed s1;
               s3 = update_task tid (\<lambda>task. task\<lparr>t_completedAt := Some (clock s)\<rparr>) s2
           in case server_tasks s3 tid of
                None \<Rightarrow> s3
              | Some task \<Rightarrow> s3\<lparr>trace := trace s3 @ [RedisPublish ''a2a:task_complete'' task]\<rparr>))"

subsection \<open>Routes\<close>

text \<open>POST /tasks.  The response is written after \<^verbatim>\<open>this.processTask(task)\<close> has
  returned its promise, from the same task object.\<close>

definition post_tasks ::
  "string \<Rightarrow> string \<Rightarrow> jsval \<Rightarrow> A2AServer \<Rightarrow> A2ATask http_response \<times> A2AServer" where
  "post_tasks agentId ty inp s0 =
     (let tid = uuids s0;
          task = \<lparr>t_id = tid, t_agentId = agentId, t_type = ty, t_input = inp,
                  t_status = pending, t_result = None, t_error = None,
                  t_createdAt = clock s0, t_completedAt = None\<rparr>;
          s1 = s0\<lparr>uuids := Suc tid, server_tasks := (server_tasks s0)(tid \<mapsto> task),
                  trace := trace s0 @ [StatusWrite tid pending]\<rparr>;
          s2 = processTask tid s1
      in (case server_tasks s2 tid of
            Some t \<Rightarrow> Json 201 t
          | None \<Rightarrow> JsonError 500 ''Failed to submit task'',
          s2))"

text \<open>GET /tasks/:id\<close>

definition get_task :: "nat \<Rightarrow> A2AServer \<Rightarrow> A2ATask http_response" where
  "get_task tid s =
     (case server_tasks s tid of
        None \<Rightarrow> JsonError 404 ''Task not found''
      | Some task \<Rightarrow> Json 200 task)"

definition uuid_text :: "nat \<Rightarrow> string" where
  "uuid_text n = ''uuid-'' @ show_nat n"

text \<open>POST /agents/register; an empty \<open>card_id\<close> stands for a body without a truthy
  \<^verbatim>\<open>id\<close>.\<close>

definition register_agent ::
  "A2AAgentCard \<Rightarrow> A2AServer \<Rightarrow> A2AAgentCard http_response \<times> A2AServer" where
  "register_agent body s =
     (if card_id body \<noteq> []
      then (Json 201 body, s\<lparr>server_agents := (server_agents s)(card_id body \<mapsto> body)\<rparr>)
      else
        (let agent = body\<lparr>card_id := uuid_text (uuids s)\<rparr>
         in (Json 201 agent,
             s\<lparr>uuids := Suc (uuids s),
               server_agents := (server_agents s)(card_id agent \<mapsto> agent)\<rparr>)))"

text \<open>DELETE /agents/:id\<close>

definition deregister_agent :: "string \<Rightarrow> A2AServer \<Rightarrow> string http_response \<times> A2AServer" where
  "deregister_agent aid s =
     (case server_agents s aid of
        None \<Rightarrow> (JsonError 404 ''Agent not found'', s)
      | Some agent \<Rightarrow> (Json 200 aid, s\<lparr>server_agents := (server_agents s)(aid := None)\<rparr>))"

subsection \<open>The server as a transition system\<close>

text \<open>What happens to the server, one turn of the event loop at a time: a request comes
  in, the backend call of a suspended task settles, or time passes.\<close>

datatype happening =
    PostTasks string string jsval
  | PostRegister A2AAgentCard
  | DeleteAgent string
  | BackendSettles nat outcome
  | Tick nat

definition step :: "happening \<Rightarrow> A2AServer \<Rightarrow> A2AServer" where
  "step h s =
     (case h of
        PostTasks agentId ty inp \<Rightarrow> snd (post_tasks agentId ty inp s)
      | PostRegister body \<Rightarrow> snd (register_agent body s)
      | DeleteAgent aid \<Rightarrow> snd (deregister_agent aid s)
      | BackendSettles tid settled_as \<Rightarrow>
          if tid \<in> set (awaiting s)
          then processTask_resume tid settled_as (s\<lparr>awaiting := removeAll tid (awaiting s)\<rparr>)
          else s
      | Tick d \<Rightarrow> s\<lparr>clock := clock s + d\<rparr>)"

definition run :: "happening list \<Rightarrow> A2AServer \<Rightarrow> A2AServer" where
  "run hs s = foldl (\<lambda>s' h. step h s') s hs"

text \<open>The assignments to the status of one task, in order.\<close>

fun status_writes :: "nat \<Rightarrow> a2a_effect list \<Rightarrow> task_status list" where
  "status_writes tid [] = []"
| "status_writes tid (StatusWrite tid' st # fx) =
     (if tid' = tid then st # status_writes tid fx else status_writes tid fx)"
| "status_writes tid (_ # fx) = status_writes tid fx"

text \<open>The chain pending, in_progress, then completed or failed, and its beginnings.\<close>

definition follows_chain :: "task_status list \<Rightarrow> bool" where
  "follows_chain ws =
     (ws = [] \<or> ws = [pending] \<or> ws = [pending, in_progress]
      \<or> ws = [pending, in_progress, completed] \<or> ws = [pending, in_progress, failed])"


section \<open>Specification-level descriptions\<close>

text \<open>The definitions of this section are not translations of source functions: they say
  in the specification's terms what the theorems below prove of the code above.\<close>

definition is_value :: "jsval \<Rightarrow> bool" where
  "is_value v = (v \<noteq> Undefined \<and> v \<noteq> Null)"

text \<open>A key for which \<^verbatim>\<open>obj[k] = v\<close> on an object literal is a plain write of an own
  property that keeps the order of creation: neither \<^verbatim>\<open>__proto__\<close> nor an array index.\<close>

definition plain_key :: "string \<Rightarrow> bool" where
  "plain_key k = (k \<noteq> ''__proto__'' \<and> \<not> is_array_index k)"

text \<open>The aggregation step counts an entry as failed when its \<^verbatim>\<open>error\<close> property is
  truthy, and as successful otherwise.\<close>

definition failed_entries :: "(string \<times> jsval) list \<Rightarrow> (string \<times> jsval) list" where
  "failed_entries rs = filter (\<lambda>(a, r). truthy (js_get_opt r ''error'')) rs"

definition successful_entries :: "(string \<times> jsval) list \<Rightarrow> (string \<times> jsval) list" where
  "successful_entries rs = filter (\<lambda>(a, r). \<not> truthy (js_get_opt r ''error'')) rs"

definition printable_error :: "jsval \<Rightarrow> bool" where
  "printable_error r = (js_to_string (js_get_opt r ''error'') \<noteq> None)"

text \<open>The header: the analysis type, then the counts of all, successful and failed agents,
  then an empty line.\<close>

definition summary_header :: "string \<Rightarrow> nat \<Rightarrow> nat \<Rightarrow> nat \<Rightarrow> string list" where
  "summary_header analysisType n ok bad =
     [''## Multi-Agent '' @ analysisType @ '' Analysis Summary'',
      ''**Agents consulted:** '' @ show_nat n @ '' ('' @ show_nat ok @ '' successful, ''
        @ show_nat bad @ '' failed)'',
      '''']"

text \<open>The payload a successful agent's section shows: its \<^verbatim>\<open>analysis\<close> if truthy, else
  its \<^verbatim>\<open>result\<close> if truthy, else nothing; a string as it is, anything else as a JSON dump.\<close>

definition payload_shown :: "(jsval \<Rightarrow> string) \<Rightarrow> jsval \<Rightarrow> string list" where
  "payload_shown stringify r =
     (if truthy (js_get_opt r ''analysis'') then
        (case js_get_opt r ''analysis'' of Str s \<Rightarrow> [s] | v \<Rightarrow> [stringify v])
      else if truthy (js_get_opt r ''result'') then
        (case js_get_opt r ''result'' of Str s \<Rightarrow> [s] | v \<Rightarrow> [stringify v])
      else [])"

definition agent_section :: "(jsval \<Rightarrow> string) \<Rightarrow> string \<times> jsval \<Rightarrow> string list" where
  "agent_section stringify entry =
     [''### '' @ fst entry] @ payload_shown stringify (snd entry) @ ['''']"

definition failed_line :: "string \<times> jsval \<Rightarrow> string" where
  "failed_line entry =
     ''- **'' @ fst entry @ ''**: ''
       @ (case js_to_string (js_get_opt (snd entry) ''error'') of Some s \<Rightarrow> s | None \<Rightarrow> [])"

definition narrative_sections ::
  "(jsval \<Rightarrow> string) \<Rightarrow> (string \<times> jsval) list \<Rightarrow> string \<Rightarrow> string list" where
  "narrative_sections stringify rs analysisType =
     summary_header analysisType (length rs) (length (successful_entries rs))
         (length (failed_entries rs))
       @ concat (map (agent_section stringify) (successful_entries rs))
       @ (if failed_entries rs = [] then []
          else ''### Failed Agents'' # map failed_line (failed_entries rs))"

text \<open>Whether reading the tool names of a payload throws, and with what: the reading does
  not depend on the names collected before.\<close>

definition tools_error :: "jsval \<Rightarrow> thrown option" where
  "tools_error d = snd (collect_tools d [])"

text \<open>The tool names a well-formed payload reports.\<close>

definition tool_names :: "jsval \<Rightarrow> jsval list" where
  "tool_names d =
     (case js_get_opt d ''tools_used'' of
        Arr ts \<Rightarrow> map (\<lambda>t. js_get_opt t ''name'') ts
      | _ \<Rightarrow> [])"

text \<open>A payload of the shape the backend interface gives: a value whose \<^verbatim>\<open>tools_used\<close>,
  when truthy, is a list of values (of objects \<^verbatim>\<open>{name, ...}\<close>, for the backend of this
  repository), and whose \<^verbatim>\<open>error\<close>, if any, converts to a string.\<close>

definition readable_payload :: "jsval \<Rightarrow> bool" where
  "readable_payload d =
     (is_value d
      \<and> (if truthy (js_get_opt d ''tools_used'')
         then (case js_get_opt d ''tools_used'' of Arr ts \<Rightarrow> list_all is_value ts | _ \<Rightarrow> False)
         else True)
      \<and> printable_error d)"

text \<open>The per-agent unit of work is the \<^verbatim>\<open>try\<close> block of the closure: it fails when
  the backend call rejects, and also when the call resolves with a payload whose tool
  names cannot be read; the \<^verbatim>\<open>catch\<close> block then records the error.\<close>

definition recorded :: "outcome \<Rightarrow> jsval" where
  "recorded settled_as =
     (case settled_as of
        Rejected e \<Rightarrow> failure_entry e
      | Resolved d \<Rightarrow> (case tools_error d of None \<Rightarrow> d | Some e \<Rightarrow> failure_entry e))"


text \<open>What the closure of \<^verbatim>\<open>orchestrateAnalysis\<close> records for a call.\<close>

definition a2a_recorded :: "outcome \<Rightarrow> jsval" where
  "a2a_recorded settled_as =
     (case settled_as of
        Resolved d \<Rightarrow> d
      | Rejected e \<Rightarrow> Obj [(''error'', Str (message e))])"

text \<open>The payloads of the backend calls made for one task, in order.\<close>

fun axios_posts :: "nat \<Rightarrow> a2a_effect list \<Rightarrow> jsval list" where
  "axios_posts tid [] = []"
| "axios_posts tid (AxiosPost tid' payload # fx) =
     (if tid' = tid then payload # axios_posts tid fx else axios_posts tid fx)"
| "axios_posts tid (_ # fx) = axios_posts tid fx"

text \<open>The body of the backend call made for a task of type \<open>ty\<close> whose input can be read.\<close>

definition request_payload :: "string \<Rightarrow> jsval \<Rightarrow> jsval" where
  "request_payload ty inp =
     Obj [(''case_id'', js_get_opt inp ''caseId''),
          (''analysis_type'', Str (if ty \<noteq> [] then ty else ''full_analysis'')),
          (''input_text'', js_or (js_get_opt inp ''caseText'') (js_or (js_get_opt inp ''text'') inp))]"

text \<open>The state of one task, as kept by every turn of the event loop: a task that is not
  in the store has no history; a task in the store has an id already generated, and it is
  either awaiting its backend call, in progress, or it has ended, completed or failed.\<close>

definition task_state_ok :: "A2AServer \<Rightarrow> nat \<Rightarrow> bool" where
  "task_state_ok s tid =
     (case server_tasks s tid of
        None \<Rightarrow>
          tid \<notin> set (awaiting s) \<and> status_writes tid (trace s) = []
          \<and> axios_posts tid (trace s) = []
      | Some task \<Rightarrow>
          tid < uuids s \<and>
          (if tid \<in> set (awaiting s)
           then status_writes tid (trace s) = [pending, in_progress] \<and> t_status task = in_progress
           else (status_writes tid (trace s) = [pending, in_progress, completed]
                   \<and> t_status task = completed)
                \<or> (status_writes tid (trace s) = [pending, in_progress, failed]
                   \<and> t_status task = failed)))"

definition store_inv :: "A2AServer \<Rightarrow> bool" where
  "store_inv s = (\<forall>tid. (uuids s \<le> tid \<longrightarrow> server_tasks s tid = None) \<and> task_state_ok s tid)"

text \<open>No happening of the list is the settling of the backend call of task \<open>tid\<close>.\<close>

definition unsettled :: "nat \<Rightarrow> happening list \<Rightarrow> bool" where
  "unsettled tid hs =
     list_all (\<lambda>h. case h of BackendSettles k settled_as \<Rightarrow> k \<noteq> tid | _ \<Rightarrow> True) hs"

text \<open>The error thrown when the input of a task is \<^verbatim>\<open>undefined\<close> or \<^verbatim>\<open>null\<close> and
  \<^verbatim>\<open>task.input.caseId\<close> is read.\<close>

definition input_unreadable :: "jsval \<Rightarrow> thrown" where
  "input_unreadable inp =
     TypeError (''Cannot read properties of '' @ (if inp = Undefined then ''undefined'' else ''null'')
                @ '' (reading '' @ [CHR 0x27] @ ''caseId'' @ [CHR 0x27] @ '')'')"

text \<open>What an operation returned, if it did.\<close>

definition returned :: "'a completion \<Rightarrow> 'a option" where
  "returned c = (case c of Returns r \<Rightarrow> Some r | Throws e \<Rightarrow> None | Hangs \<Rightarrow> None)"

subsection \<open>Example runs\<close>

text \<open>A supervisor fan-out in which the call made for \<^verbatim>\<open>legal-analyst\<close> resolves first,
  with an analysis and one tool, and every other call is rejected with a network error.\<close>

definition example_env :: "string fanout_env" where
  "example_env =
     \<lparr>new_uuid = ''u1'', start_time = 0, end_time = 5, settle_time = (\<lambda>a. 3),
      reply = (\<lambda>a. if a = ''legal-analyst''
                   then Resolved (Obj [(''analysis'', Str ''Strong case''),
                                       (''tools_used'', Arr [Obj [(''name'', Str ''rag_search_tool'')]])])
                   else Rejected (Thrown ''Network Error'' None)),
      settle_order = [''legal-analyst'', ''risk-assessor''],
      json_stringify = (\<lambda>v. ''{}'')\<rparr>"

text \<open>A supervisor fan-out in which every call resolves, with a payload whose
  \<^verbatim>\<open>tools_used\<close> is the name of a tool instead of a list of tools.\<close>

definition unreadable_env :: "string fanout_env" where
  "unreadable_env =
     \<lparr>new_uuid = ''u3'', start_time = 0, end_time = 5, settle_time = (\<lambda>a. 3),
      reply = (\<lambda>a. Resolved (Obj [(''analysis'', Str ''Strong case''),
                                  (''tools_used'', Str ''rag_search_tool'')])),
      settle_order = [''research-agent''],
      json_stringify = (\<lambda>v. ''{}'')\<rparr>"

text \<open>A supervisor fan-out in which every call resolves, with a payload whose \<^verbatim>\<open>error\<close>
  is an object that has a property \<^verbatim>\<open>toString\<close>.\<close>

definition unprintable_env :: "string fanout_env" where
  "unprintable_env =
     \<lparr>new_uuid = ''u4'', start_time = 0, end_time = 5, settle_time = (\<lambda>a. 3),
      reply = (\<lambda>a. Resolved (Obj [(''error'', Obj [(''toString'', Str ''x'')])])),
      settle_order = [''research-agent''],
      json_stringify = (\<lambda>v. ''{}'')\<rparr>"

text \<open>A supervisor fan-out in which every call is rejected with an error whose message is
  the empty string.\<close>

definition silent_failure_env :: "string fanout_env" where
  "silent_failure_env =
     \<lparr>new_uuid = ''u5'', start_time = 0, end_time = 5, settle_time = (\<lambda>a. 3),
      reply = (\<lambda>a. Rejected (Thrown [] None)),
      settle_order = [''research-agent''],
      json_stringify = (\<lambda>v. ''{}'')\<rparr>"

text \<open>An A2A fan-out of up to two calls, settling in the order issued, each resolving
  with a payload that reports the tool \<^verbatim>\<open>rag_search_tool\<close>.\<close>

definition example_a2a_env :: "nat fanout_env" where
  "example_a2a_env =
     \<lparr>new_uuid = ''u2'', start_time = 0, end_time = 5, settle_time = (\<lambda>i. 3),
      reply = (\<lambda>i. Resolved (Obj [(''tools_used'', Arr [Obj [(''name'', Str ''rag_search_tool'')]])])),
      settle_order = [0, 1],
      json_stringify = (\<lambda>v. ''{}'')\<rparr>"

section \<open>The routing table\<close>

lemma routeTask_cases:
  "routeTask t = Inherited t \<and> t \<in> set object_prototype_members
   \<or> (\<exists>ids. routeTask t = Agents ids \<and> ids \<noteq> [] \<and> distinct ids)"
  unfolding routeTask_def routingMap_def
  by (auto split: option.splits if_splits)

lemma routeTask_distinct: "routeTask t = Agents ids \<Longrightarrow> distinct ids \<and> ids \<noteq> []"
  using routeTask_cases [of t] by auto

text \<open>An analysis type that is neither a key of the table nor a name the object literal
  inherits falls back to the general-purpose agent.\<close>

lemma routeTask_fallback:
  "map_of routingMap t = None \<Longrightarrow> t \<notin> set object_prototype_members \<Longrightarrow>
   routeTask t = Agents [''legal-analyst'']"
  by (simp add: routeTask_def)

text \<open>
  C9.  The claim: for every analysis type that is not a key of the routing map, the
  routing function returns the one-element default list \<^verbatim>\<open>['legal-analyst']\<close>.  The
  code evaluated at the analysis type \<^verbatim>\<open>constructor\<close>, which is not a key of the map:
  the lookup \<^verbatim>\<open>routingMap[analysisType]\<close> finds the member the object literal inherits,
  which is truthy, so the default is not taken; what is returned is not a list, and
  \<^verbatim>\<open>orchestrate\<close> throws on it.
\<close>

theorem routeTask_inherited_member:
  "map_of routingMap ''constructor'' = None
   \<and> routeTask ''constructor'' = Inherited ''constructor''
   \<and> routeTask ''constructor'' \<noteq> Agents [''legal-analyst'']
   \<and> orchestrate env text ''constructor'' cid
       = (Throws (TypeError ''assignedAgents.join is not a function''), [])"
  by (simp add: routeTask_def routingMap_def object_prototype_members_def orchestrate_def)

section \<open>POST /api/agents/orchestrate\<close>

text \<open>
  C10.  A request to the supervisor orchestration endpoint whose body supplies neither a
  (truthy) \<^verbatim>\<open>caseText\<close> nor a (truthy) \<^verbatim>\<open>caseId\<close> is answered with status 400, and
  nothing else happens: no backend call, no cache write, no publish.
\<close>

theorem orchestrate_route_rejects_empty_request:
  assumes "\<not> truthy_opt (body_caseText body)" and "\<not> truthy_opt (body_caseId body)"
  shows "post_agents_orchestrate env body
         = (JsonError 400 ''Either caseText or caseId is required'', [])"
  using assms by (simp add: post_agents_orchestrate_def)

theorem orchestrate_route_rejects_empty_request_witness:
  "\<not> truthy_opt (body_caseText
        \<lparr>body_caseText = None, body_analysisType = Some ''risk_assessment'', body_caseId = None\<rparr>)
   \<and> \<not> truthy_opt (body_caseId
        \<lparr>body_caseText = None, body_analysisType = Some ''risk_assessment'', body_caseId = None\<rparr>)
   \<and> post_agents_orchestrate
        \<lparr>new_uuid = ''u1'', start_time = 0, end_time = 5, settle_time = (\<lambda>a. 3),
         reply = (\<lambda>a. Resolved (Obj [])), settle_order = [''risk-assessor'', ''legal-analyst''],
         json_stringify = (\<lambda>v. ''{}'')\<rparr>
        \<lparr>body_caseText = None, body_analysisType = Some ''risk_assessment'', body_caseId = None\<rparr>
      = (JsonError 400 ''Either caseText or caseId is required'', [])"
proof -
  have a: "\<not> truthy_opt (body_caseText
        \<lparr>body_caseText = None, body_analysisType = Some ''risk_assessment'', body_caseId = None\<rparr>)"
    by (simp add: truthy_opt_def)
  have b: "\<not> truthy_opt (body_caseId
        \<lparr>body_caseText = None, body_analysisType = Some ''risk_assessment'', body_caseId = None\<rparr>)"
    by (simp add: truthy_opt_def)
  from a b orchestrate_route_rejects_empty_request [OF a b] show ?thesis
    by blast
qed

section \<open>The aggregate narrative\<close>

lemma js_get_value: "is_value v \<Longrightarrow> js_get v p = Inr (js_get_opt v p)"
  by (cases v) (auto simp: is_value_def)

lemma filter_entries_values:
  "list_all (\<lambda>entry. is_value (snd entry)) rs \<Longrightarrow>
   filter_entries keep rs = Inr (filter (\<lambda>(a, r). keep (js_get_opt r ''error'')) rs)"
  by (induction rs) (auto simp: js_get_value)

lemma render_payload:
  "truthy (js_get_opt r p) \<Longrightarrow>
   [render stringify (js_get_opt r p)] = (case js_get_opt r p of Str s \<Rightarrow> [s] | v \<Rightarrow> [stringify v])"
  by (cases "js_get_opt r p") (auto simp: render_def)

lemma push_successful_values:
  "list_all (\<lambda>entry. is_value (snd entry)) rs \<Longrightarrow>
   push_successful stringify rs sections =
     Inr (sections @ concat (map (agent_section stringify) rs))"
proof (induction rs arbitrary: sections)
  case Nil
  then show ?case by simp
next
  case (Cons entry rs)
  obtain a r where entry: "entry = (a, r)" by (cases entry)
  with Cons.prems have v: "is_value r" and rest: "list_all (\<lambda>entry. is_value (snd entry)) rs"
    by auto
  show ?case
    unfolding entry
    by (simp add: js_get_value [OF v] Cons.IH [OF rest] agent_section_def payload_shown_def
        render_payload)
qed

lemma push_failed_values:
  "list_all (\<lambda>entry. is_value (snd entry) \<and> printable_error (snd entry)) rs \<Longrightarrow>
   push_failed rs sections = Inr (sections @ map failed_line rs)"
proof (induction rs arbitrary: sections)
  case Nil
  then show ?case by simp
next
  case (Cons entry rs)
  obtain a r where entry: "entry = (a, r)" by (cases entry)
  with Cons.prems have v: "is_value r" and p: "printable_error r"
    and rest: "list_all (\<lambda>entry. is_value (snd entry) \<and> printable_error (snd entry)) rs"
    by auto
  from p obtain s where s: "js_to_string (js_get_opt r ''error'') = Some s"
    by (auto simp: printable_error_def)
  show ?case
    unfolding entry
    by (simp add: js_get_value [OF v] s Cons.IH [OF rest] failed_line_def)
qed

lemma list_all_filter: "list_all P xs \<Longrightarrow> list_all P (filter Q xs)"
  by (induction xs) auto

lemma aggregate_sections_values:
  assumes vals: "list_all (\<lambda>entry. is_value (snd entry)) rs"
    and printable: "list_all (\<lambda>entry. printable_error (snd entry)) (failed_entries rs)"
  shows "aggregate_sections stringify rs t = Inr (narrative_sections stringify rs t)"
proof -
  have ok: "filter_entries (\<lambda>err. \<not> truthy err) rs = Inr (successful_entries rs)"
    by (simp add: filter_entries_values [OF vals] successful_entries_def)
  have bad: "filter_entries truthy rs = Inr (failed_entries rs)"
    by (simp add: filter_entries_values [OF vals] failed_entries_def)
  have ok_vals: "list_all (\<lambda>entry. is_value (snd entry)) (successful_entries rs)"
    unfolding successful_entries_def by (rule list_all_filter [OF vals])
  have "list_all (\<lambda>entry. is_value (snd entry)) (failed_entries rs)"
    unfolding failed_entries_def by (rule list_all_filter [OF vals])
  with printable
  have bad_vals:
    "list_all (\<lambda>entry. is_value (snd entry) \<and> printable_error (snd entry)) (failed_entries rs)"
    by (simp add: list_all_iff)
  show ?thesis
    unfolding aggregate_sections_def
    by (simp add: ok bad push_successful_values [OF ok_vals] push_failed_values [OF bad_vals]
        narrative_sections_def summary_header_def)
qed

text \<open>The aggregation step returns whenever no entry is \<^verbatim>\<open>null\<close> or \<^verbatim>\<open>undefined\<close>
  and the truthy errors convert to strings; it then sorts the entries by the truthiness of
  their \<^verbatim>\<open>error\<close> property.\<close>

lemma aggregateResults_values:
  assumes "list_all (\<lambda>entry. is_value (snd entry)) rs"
    and "list_all (\<lambda>entry. printable_error (snd entry)) (failed_entries rs)"
  shows "aggregateResults stringify rs t = Inr (join [CHR 0x0A] (narrative_sections stringify rs t))"
  using assms by (simp add: aggregateResults_def aggregate_sections_values)

lemma show_nat_digit: "n < 10 \<Longrightarrow> show_nat n = [digit_char n]"
  by (simp add: show_nat.simps)

text \<open>The step throws when the \<^verbatim>\<open>error\<close> of an entry is an object that cannot be
  converted to a string.\<close>

lemma aggregateResults_unprintable:
  "aggregateResults stringify [(''research-agent'', Obj [(''error'', Obj [(''toString'', Str ''x'')])])]
     ''legal_research''
   = Inl (TypeError ''Cannot convert object to primitive value'')"
  by (simp add: aggregateResults_def aggregate_sections_def cannot_convert_def show_nat_digit)

text \<open>
  C8.  The claim: the narrative ends with a \<^verbatim>\<open>Failed Agents\<close> section that lists exactly
  the agents that failed, and gives one section to each agent that succeeded.  The code
  evaluated on the results map that \<^verbatim>\<open>orchestrate\<close> builds for the analysis type
  \<^verbatim>\<open>legal_research\<close> when the call made for \<^verbatim>\<open>research-agent\<close> is rejected with an
  error whose message is the empty string: the entry of the agent is
  \<^verbatim>\<open>{error: '', status: 'failed'}\<close>, and the narrative counts one successful and no
  failed agent, gives the agent a section of its own with nothing in it, and has no
  \<^verbatim>\<open>Failed Agents\<close> section.  The step tells a failed agent by the truthiness of
  \<^verbatim>\<open>error\<close>, and the empty string is falsy.
\<close>

theorem silent_failure_shown_successful:
  "aggregateResults stringify
       [(''research-agent'', Obj [(''error'', Str ''''), (''status'', Str ''failed'')])]
       ''legal_research''
     = Inr (''## Multi-Agent legal_research Analysis Summary'' @ [CHR 0x0A]
            @ ''**Agents consulted:** 1 (1 successful, 0 failed)'' @ [CHR 0x0A]
            @ [CHR 0x0A]
            @ ''### research-agent'' @ [CHR 0x0A])
   \<and> reply silent_failure_env ''research-agent'' = Rejected (Thrown '''' None)
   \<and> map_option results
         (returned (fst (orchestrate silent_failure_env ''x'' ''legal_research'' None)))
     = Some [(''research-agent'', Obj [(''error'', Str ''''), (''status'', Str ''failed'')])]
   \<and> map_option aggregatedAnalysis
         (returned (fst (orchestrate silent_failure_env ''x'' ''legal_research'' None)))
     = Some (''## Multi-Agent legal_research Analysis Summary'' @ [CHR 0x0A]
             @ ''**Agents consulted:** 1 (1 successful, 0 failed)'' @ [CHR 0x0A]
             @ [CHR 0x0A]
             @ ''### research-agent'' @ [CHR 0x0A])"
  by (simp add: aggregateResults_def aggregate_sections_def show_nat_digit digit_char_def
      silent_failure_env_def orchestrate_def routeTask_def routingMap_def settled_def
      settle_agent_def failure_entry_def js_assign_def put_own_def new_object_def
      is_array_index_def is_digit_def returned_def Let_def)

text \<open>The same call rejected with the message \<^verbatim>\<open>Network Error\<close> is listed as failed.\<close>

lemma failure_shown_failed:
  "aggregateResults stringify
       [(''research-agent'', Obj [(''error'', Str ''Network Error''), (''status'', Str ''failed'')])]
       ''legal_research''
     = Inr (''## Multi-Agent legal_research Analysis Summary'' @ [CHR 0x0A]
            @ ''**Agents consulted:** 1 (0 successful, 1 failed)'' @ [CHR 0x0A]
            @ [CHR 0x0A]
            @ ''### Failed Agents'' @ [CHR 0x0A]
            @ ''- **research-agent**: Network Error'')"
  by (simp add: aggregateResults_def aggregate_sections_def show_nat_digit digit_char_def)

section \<open>The fan-out of the Supervisor\<close>

text \<open>Whether reading the tool names of a payload throws does not depend on the names
  collected so far.\<close>

lemma forEach_tool_error: "snd (forEach_tool ts tools) = snd (forEach_tool ts [])"
proof (induction ts arbitrary: tools)
  case Nil
  then show ?case by simp
next
  case (Cons t ts)
  show ?case
  proof (cases "js_get t ''name''")
    case (Inl e)
    then show ?thesis by simp
  next
    case (Inr n)
    have "snd (forEach_tool ts (if js_includes tools n then tools else tools @ [n]))
          = snd (forEach_tool ts [])"
      by (rule Cons.IH)
    moreover have "snd (forEach_tool ts (if js_includes [] n then [] else [] @ [n]))
          = snd (forEach_tool ts [])"
      by (rule Cons.IH)
    ultimately show ?thesis using Inr by simp
  qed
qed

lemma collect_tools_error: "snd (collect_tools d tools) = tools_error d"
  unfolding tools_error_def collect_tools_def
  using forEach_tool_error
  by (auto split: sum.splits jsval.splits)

lemma obj_set_twice: "obj_set (obj_set res k v) k w = obj_set res k w"
  by (induction res) auto

lemma obj_set_new: "k \<notin> fst ` set res \<Longrightarrow> obj_set res k v = res @ [(k, v)]"
  by (induction res) auto

text \<open>The agent ids of the routing table are plain keys, so the results object of the
  Supervisor keeps its prototype and lists its entries in the order they were created.\<close>

lemma routeTask_plain: "routeTask t = Agents ids \<Longrightarrow> list_all plain_key ids"
  unfolding routeTask_def routingMap_def plain_key_def is_array_index_def is_digit_def
  by (auto split: option.splits if_splits)

lemma js_assign_plain:
  "plain_key k \<Longrightarrow> js_assign (proto, props) k v = (proto, obj_set props k v)"
  by (simp add: js_assign_def put_own_def plain_key_def)

lemma settle_agent_results:
  assumes "plain_key a"
  shows "fst (settle_agent env a ((proto, res), tools, fx))
         = (proto, obj_set res a (recorded (reply env a)))"
proof (cases "reply env a")
  case (Rejected e)
  then show ?thesis by (simp add: settle_agent_def recorded_def js_assign_plain [OF assms])
next
  case (Resolved d)
  obtain tools' err where c: "collect_tools d tools = (tools', err)"
    by (cases "collect_tools d tools")
  then have "tools_error d = err"
    using collect_tools_error [of d tools] by simp
  with Resolved c show ?thesis
    by (cases err)
      (simp_all add: settle_agent_def recorded_def js_assign_plain [OF assms] obj_set_twice)
qed

lemma fold_settle_results:
  "distinct ss \<Longrightarrow> list_all plain_key ss \<Longrightarrow> set ss \<inter> fst ` set res = {} \<Longrightarrow>
   fst (foldl (\<lambda>acc a. settle_agent env a acc) ((proto, res), tools, fx) ss)
     = (proto, res @ map (\<lambda>a. (a, recorded (reply env a))) ss)"
proof (induction ss arbitrary: res tools fx)
  case Nil
  then show ?case by simp
next
  case (Cons a ss)
  obtain obj' tools' fx' where s: "settle_agent env a ((proto, res), tools, fx) = (obj', tools', fx')"
    by (cases "settle_agent env a ((proto, res), tools, fx)")
  from Cons.prems have fresh: "a \<notin> fst ` set res" and plain: "plain_key a" by auto
  let ?res = "res @ [(a, recorded (reply env a))]"
  have obj': "obj' = (proto, ?res)"
    using settle_agent_results [OF plain, of env proto res tools fx] s obj_set_new [OF fresh]
    by simp
  have "set ss \<inter> fst ` set ?res = {}"
    using Cons.prems by auto
  moreover have "distinct ss" using Cons.prems by simp
  moreover have "list_all plain_key ss" using Cons.prems by simp
  ultimately have "fst (foldl (\<lambda>acc a. settle_agent env a acc) ((proto, ?res), tools', fx') ss)
     = (proto, ?res @ map (\<lambda>a. (a, recorded (reply env a))) ss)"
    using Cons.IH by blast
  then show ?case by (simp add: s obj')
qed

lemma settled_distinct: "distinct (settled issued order)"
  by (simp add: settled_def)

lemma settled_set: "set issued \<subseteq> set order \<Longrightarrow> set (settled issued order) = set issued"
  by (auto simp: settled_def)

lemma settled_subset: "set (settled issued order) \<subseteq> set issued"
  by (auto simp: settled_def)

lemma settled_length:
  "distinct issued \<Longrightarrow> set issued \<subseteq> set order \<Longrightarrow> length (settled issued order) = length issued"
  using settled_distinct [of issued order] settled_set [of issued order]
  by (metis distinct_card)

lemma recorded_value: "is_value (recorded out)"
proof (cases out)
  case (Rejected e)
  then show ?thesis by (simp add: recorded_def failure_entry_def is_value_def)
next
  case (Resolved d)
  show ?thesis
  proof (cases "tools_error d")
    case None
    then have "d \<noteq> Undefined \<and> d \<noteq> Null"
      by (auto simp: tools_error_def collect_tools_def)
    with None Resolved show ?thesis by (simp add: recorded_def is_value_def)
  next
    case (Some e)
    with Resolved show ?thesis by (simp add: recorded_def failure_entry_def is_value_def)
  qed
qed

lemma recorded_printable:
  "(case out of Resolved d \<Rightarrow> printable_error d | Rejected e \<Rightarrow> True) \<Longrightarrow>
   printable_error (recorded out)"
  by (auto simp: recorded_def failure_entry_def printable_error_def split: outcome.splits option.splits)

text \<open>The results object once every closure that settles has run.\<close>

lemma supervisor_fold:
  assumes route: "routeTask t = Agents ids"
  shows "fst (foldl (\<lambda>acc agentId. settle_agent env agentId acc) (new_object, [], calls)
                (settled ids (settle_order env)))
         = (ObjectPrototype,
            map (\<lambda>a. (a, recorded (reply env a))) (settled ids (settle_order env)))"
proof -
  have "list_all plain_key (settled ids (settle_order env))"
    using routeTask_plain [OF route] settled_subset [of ids "settle_order env"]
    by (auto simp: list_all_iff)
  then show ?thesis
    unfolding new_object_def
    using fold_settle_results [of "settled ids (settle_order env)" "[]" env ObjectPrototype "[]" calls]
      settled_distinct [of ids "settle_order env"]
    by simp
qed

lemma orchestrate_results:
  assumes route: "routeTask t = Agents ids"
    and ret: "orchestrate env text t cid = (Returns r, fx)"
  shows "agents r = ids"
    and "results r = map (\<lambda>a. (a, recorded (reply env a))) (settled ids (settle_order env))"
    and "set ids \<subseteq> set (settle_order env)"
proof -
  let ?calls = "map (\<lambda>agentId. BackendCall agentId (analysis_payload text t cid)) ids"
  let ?ss = "settled ids (settle_order env)"
  obtain obj tools fx' where f:
    "foldl (\<lambda>acc agentId. settle_agent env agentId acc) (new_object, [], ?calls) ?ss = (obj, tools, fx')"
    by (cases "foldl (\<lambda>acc agentId. settle_agent env agentId acc) (new_object, [], ?calls) ?ss")
  have res: "snd obj = map (\<lambda>a. (a, recorded (reply env a))) ?ss"
    using supervisor_fold [OF route, of env ?calls] f by simp
  from ret show sub: "set ids \<subseteq> set (settle_order env)"
    unfolding orchestrate_def route by (simp add: f split: if_splits)
  from ret sub show "agents r = ids"
    unfolding orchestrate_def route
    by (auto simp: f Let_def split: sum.splits)
  from ret sub show "results r = map (\<lambda>a. (a, recorded (reply env a))) ?ss"
    unfolding orchestrate_def route
    by (auto simp: f res Let_def split: sum.splits)
qed

lemma orchestrate_returns:
  assumes route: "routeTask t = Agents ids"
    and all_settle: "set ids \<subseteq> set (settle_order env)"
    and printable:
      "list_all (\<lambda>a. case reply env a of Resolved d \<Rightarrow> printable_error d | Rejected e \<Rightarrow> True) ids"
  shows "\<exists>r fx. orchestrate env text t cid = (Returns r, fx)"
proof -
  let ?calls = "map (\<lambda>agentId. BackendCall agentId (analysis_payload text t cid)) ids"
  let ?ss = "settled ids (settle_order env)"
  obtain obj tools fx' where f:
    "foldl (\<lambda>acc agentId. settle_agent env agentId acc) (new_object, [], ?calls) ?ss = (obj, tools, fx')"
    by (cases "foldl (\<lambda>acc agentId. settle_agent env agentId acc) (new_object, [], ?calls) ?ss")
  have res: "snd obj = map (\<lambda>a. (a, recorded (reply env a))) ?ss"
    using supervisor_fold [OF route, of env ?calls] f by simp
  have vals: "list_all (\<lambda>entry. is_value (snd entry)) (snd obj)"
    unfolding res by (simp add: list_all_iff recorded_value)
  have "set ?ss = set ids" using all_settle by (rule settled_set)
  with printable have "list_all (\<lambda>entry. printable_error (snd entry)) (snd obj)"
    unfolding res by (auto simp: list_all_iff intro: recorded_printable)
  then have bad: "list_all (\<lambda>entry. printable_error (snd entry)) (failed_entries (snd obj))"
    unfolding failed_entries_def by (rule list_all_filter)
  show ?thesis
    unfolding orchestrate_def route
    using all_settle by (simp add: f aggregateResults_values [OF vals bad] Let_def)
qed

lemma map_of_recorded:
  "a \<in> set ss \<Longrightarrow> map_of (map (\<lambda>a. (a, f a)) ss) a = Some (f a)"
  by (induction ss) auto

text \<open>What \<^verbatim>\<open>orchestrate\<close> records, whatever the payloads: it returns as soon as every
  call settles and the errors of the resolved payloads can be printed, with one entry per
  routed target, which is what the closure of that target recorded.\<close>

lemma orchestrate_records:
  assumes route: "routeTask t = Agents ids"
    and all_settle: "set ids \<subseteq> set (settle_order env)"
    and printable:
      "list_all (\<lambda>a. case reply env a of Resolved d \<Rightarrow> printable_error d | Rejected e \<Rightarrow> True) ids"
  shows "\<exists>r fx. orchestrate env text t cid = (Returns r, fx)
           \<and> length (results r) = length ids
           \<and> distinct (map fst (results r))
           \<and> set (map fst (results r)) = set ids
           \<and> list_all (\<lambda>a. map_of (results r) a = Some (recorded (reply env a))) ids"
proof -
  from orchestrate_returns [OF assms] obtain r fx
    where ret: "orchestrate env text t cid = (Returns r, fx)" by blast
  let ?ss = "settled ids (settle_order env)"
  have res: "results r = map (\<lambda>a. (a, recorded (reply env a))) ?ss"
    using orchestrate_results(2) [OF route ret] .
  have keys: "map fst (results r) = ?ss"
    unfolding res by (simp add: comp_def)
  have set_ss: "set ?ss = set ids" using all_settle by (rule settled_set)
  have "distinct ids" using routeTask_distinct [OF route] by simp
  then have len: "length ?ss = length ids" using all_settle by (rule settled_length)
  have entries: "list_all (\<lambda>a. map_of (results r) a = Some (recorded (reply env a))) ids"
    unfolding res list_all_iff using set_ss by (auto intro: map_of_recorded)
  have "length (results r) = length ids" using len unfolding res by simp
  moreover have "distinct (map fst (results r))" unfolding keys by (rule settled_distinct)
  moreover have "set (map fst (results r)) = set ids" unfolding keys by (rule set_ss)
  ultimately show ?thesis using ret entries by blast
qed

lemma forEach_tool_readable: "list_all is_value ts \<Longrightarrow> snd (forEach_tool ts tools) = None"
  by (induction ts arbitrary: tools) (auto simp: js_get_value)

lemma readable_tools_error: "readable_payload d \<Longrightarrow> tools_error d = None"
  by (cases "js_get_opt d ''tools_used''")
    (auto simp: readable_payload_def tools_error_def collect_tools_def js_get_value
      forEach_tool_readable split: if_splits)

text \<open>
  C1, as stated, fails on \<^verbatim>\<open>orchestrate\<close>, in two ways.  Asked for \<^verbatim>\<open>legal_research\<close>
  (one target, \<^verbatim>\<open>research-agent\<close>) with a backend call that succeeds with the payload
  \<^verbatim>\<open>{analysis: 'Strong case', tools_used: 'rag_search_tool'}\<close>, it records for the target
  not the payload but an error: the payload is stored and the tool names are read inside
  one \<^verbatim>\<open>try\<close> block, and the \<^verbatim>\<open>catch\<close> block overwrites the entry.  With a call that
  succeeds with the payload \<^verbatim>\<open>{error: {toString: 'x'}}\<close>, no call has failed, and
  \<^verbatim>\<open>orchestrate\<close> throws: the aggregation step cannot print that error.
\<close>

theorem successful_call_not_isolated:
  "routeTask ''legal_research'' = Agents [''research-agent'']
   \<and> reply unreadable_env ''research-agent''
       = Resolved (Obj [(''analysis'', Str ''Strong case''), (''tools_used'', Str ''rag_search_tool'')])
   \<and> map_option results
         (returned (fst (orchestrate unreadable_env ''x'' ''legal_research'' None)))
       = Some [(''research-agent'',
                Obj [(''error'', Str ''response.data.tools_used.forEach is not a function''),
                     (''status'', Str ''failed'')])]
   \<and> reply unprintable_env ''research-agent''
       = Resolved (Obj [(''error'', Obj [(''toString'', Str ''x'')])])
   \<and> fst (orchestrate unprintable_env ''x'' ''legal_research'' None)
       = Throws (TypeError ''Cannot convert object to primitive value'')"
  by (simp add: unreadable_env_def unprintable_env_def orchestrate_def routeTask_def routingMap_def
      settled_def settle_agent_def collect_tools_def failure_entry_def js_assign_def put_own_def
      new_object_def is_array_index_def is_digit_def aggregateResults_def aggregate_sections_def
      show_nat_digit digit_char_def cannot_convert_def TypeError_def returned_def Let_def)

text \<open>
  C1, amended.  Let the routing table give the targets \<open>ids\<close> (N of them) for the analysis
  type, and let every one of the N backend calls settle, any number K of them by failing,
  the others with a payload of the shape the backend interface gives (neither \<^verbatim>\<open>null\<close>
  nor \<^verbatim>\<open>undefined\<close>; a \<^verbatim>\<open>tools_used\<close> that is falsy or a list without \<^verbatim>\<open>null\<close>; an
  \<^verbatim>\<open>error\<close> that converts to a string).  Then \<^verbatim>\<open>orchestrate\<close> returns: it does not
  throw and does not hang, whichever calls failed.  The results map of what it returns has
  exactly N entries, one per routed target.  The entry of a target whose call failed with
  the error \<open>e\<close> is \<^verbatim>\<open>{error: e.message, status: 'failed'}\<close>; the entry of a target whose
  call succeeded is the payload of the backend.
\<close>

theorem orchestrate_isolates_failures:
  assumes route: "routeTask t = Agents ids"
    and all_settle: "set ids \<subseteq> set (settle_order env)"
    and readable:
      "list_all (\<lambda>a. case reply env a of Resolved d \<Rightarrow> readable_payload d | Rejected e \<Rightarrow> True) ids"
  shows "\<exists>r fx. orchestrate env text t cid = (Returns r, fx)
           \<and> length (results r) = length ids
           \<and> distinct (map fst (results r))
           \<and> set (map fst (results r)) = set ids
           \<and> list_all (\<lambda>a. map_of (results r) a =
                 Some (case reply env a of
                         Rejected e \<Rightarrow> Obj [(''error'', Str (message e)), (''status'', Str ''failed'')]
                       | Resolved d \<Rightarrow> d)) ids"
proof -
  from readable have printable:
    "list_all (\<lambda>a. case reply env a of Resolved d \<Rightarrow> printable_error d | Rejected e \<Rightarrow> True) ids"
    by (auto simp: list_all_iff readable_payload_def split: outcome.splits)
  from orchestrate_records [OF route all_settle printable] obtain r fx
    where ret: "orchestrate env text t cid = (Returns r, fx)"
      and shape: "length (results r) = length ids" "distinct (map fst (results r))"
        "set (map fst (results r)) = set ids"
      and entries: "list_all (\<lambda>a. map_of (results r) a = Some (recorded (reply env a))) ids"
    by blast
  have "recorded (reply env a)
        = (case reply env a of
             Rejected e \<Rightarrow> Obj [(''error'', Str (message e)), (''status'', Str ''failed'')]
           | Resolved d \<Rightarrow> d)" if "a \<in> set ids" for a
  proof (cases "reply env a")
    case (Rejected e)
    then show ?thesis by (simp add: recorded_def failure_entry_def)
  next
    case (Resolved d)
    with readable that have "readable_payload d" by (auto simp: list_all_iff)
    with Resolved show ?thesis by (simp add: recorded_def readable_tools_error)
  qed
  with entries
  have "list_all (\<lambda>a. map_of (results r) a =
                 Some (case reply env a of
                         Rejected e \<Rightarrow> Obj [(''error'', Str (message e)), (''status'', Str ''failed'')]
                       | Resolved d \<Rightarrow> d)) ids"
    by (simp add: list_all_iff)
  with ret shape show ?thesis by blast
qed

theorem orchestrate_isolates_failures_witness:
  "routeTask ''risk_assessment'' = Agents [''risk-assessor'', ''legal-analyst'']
   \<and> set [''risk-assessor'', ''legal-analyst''] \<subseteq> set (settle_order example_env)
   \<and> list_all (\<lambda>a. case reply example_env a of Resolved d \<Rightarrow> readable_payload d | Rejected e \<Rightarrow> True)
        [''risk-assessor'', ''legal-analyst'']
   \<and> (\<exists>r fx. orchestrate example_env ''x'' ''risk_assessment'' None = (Returns r, fx)
           \<and> length (results r) = 2
           \<and> distinct (map fst (results r))
           \<and> set (map fst (results r)) = {''risk-assessor'', ''legal-analyst''}
           \<and> map_of (results r) ''risk-assessor''
               = Some (Obj [(''error'', Str ''Network Error''), (''status'', Str ''failed'')])
           \<and> map_of (results r) ''legal-analyst''
               = Some (Obj [(''analysis'', Str ''Strong case''),
                            (''tools_used'', Arr [Obj [(''name'', Str ''rag_search_tool'')]])]))"
proof -
  have route: "routeTask ''risk_assessment'' = Agents [''risk-assessor'', ''legal-analyst'']"
    by (simp add: routeTask_def routingMap_def)
  have all_settle: "set [''risk-assessor'', ''legal-analyst''] \<subseteq> set (settle_order example_env)"
    by (simp add: example_env_def)
  have readable:
    "list_all (\<lambda>a. case reply example_env a of Resolved d \<Rightarrow> readable_payload d | Rejected e \<Rightarrow> True)
        [''risk-assessor'', ''legal-analyst'']"
    by (simp add: example_env_def readable_payload_def printable_error_def is_value_def)
  have bad: "reply example_env ''risk-assessor'' = Rejected (Thrown ''Network Error'' None)"
    by (simp add: example_env_def)
  have good: "reply example_env ''legal-analyst''
              = Resolved (Obj [(''analysis'', Str ''Strong case''),
                               (''tools_used'', Arr [Obj [(''name'', Str ''rag_search_tool'')]])])"
    by (simp add: example_env_def)
  from orchestrate_isolates_failures [OF route all_settle readable, of "''x''" None]
  have "\<exists>r fx. orchestrate example_env ''x'' ''risk_assessment'' None = (Returns r, fx)
           \<and> length (results r) = 2
           \<and> distinct (map fst (results r))
           \<and> set (map fst (results r)) = {''risk-assessor'', ''legal-analyst''}
           \<and> map_of (results r) ''risk-assessor''
               = Some (Obj [(''error'', Str ''Network Error''), (''status'', Str ''failed'')])
           \<and> map_of (results r) ''legal-analyst''
               = Some (Obj [(''analysis'', Str ''Strong case''),
                            (''tools_used'', Arr [Obj [(''name'', Str ''rag_search_tool'')]])])"
    by (simp add: bad good numeral_2_eq_2)
  with route all_settle readable show ?thesis by blast
qed

section \<open>The two orchestration paths\<close>


text \<open>Which keys are array indices, and what an assignment to \<^verbatim>\<open>__proto__\<close> does to
  an object literal: an object or \<^verbatim>\<open>null\<close> becomes the prototype, a primitive value
  is dropped, and once the prototype is \<^verbatim>\<open>null\<close> the assignment makes an own
  property.\<close>

lemma is_array_index_examples:
  "is_array_index ''0'' \<and> is_array_index ''10'' \<and> is_array_index ''4294967294''
   \<and> \<not> is_array_index ''4294967295'' \<and> \<not> is_array_index ''01''
   \<and> \<not> is_array_index ''-1'' \<and> \<not> is_array_index ''1.5''
   \<and> \<not> is_array_index [] \<and> \<not> is_array_index ''risk_assessment''"
  by (simp add: is_array_index_def is_digit_def decimal_value_def digit_value_def)

lemma js_assign_proto_examples:
  "js_assign new_object ''__proto__'' (Obj [(''analysis'', Str ''ok'')])
     = (ValuePrototype (Obj [(''analysis'', Str ''ok'')]), [])
   \<and> js_assign new_object ''__proto__'' Null = (NullPrototype, [])
   \<and> js_assign new_object ''__proto__'' (Str ''ok'') = (ObjectPrototype, [])
   \<and> js_assign (NullPrototype, []) ''__proto__'' (Str ''ok'')
       = (NullPrototype, [(''__proto__'', Str ''ok'')])
   \<and> js_assign new_object ''constructor'' (Str ''ok'')
       = (ObjectPrototype, [(''constructor'', Str ''ok'')])"
  by (simp add: js_assign_def put_own_def new_object_def setter_reached_def is_array_index_def
      is_digit_def)

text \<open>The results object of the A2A server is keyed by what the request sends.  The
  analysis type \<^verbatim>\<open>__proto__\<close> leaves no entry: the assignment makes the payload the
  prototype of the results object.  Analysis types that are array indices come first
  among the entries, in ascending order.\<close>

lemma a2a_results_proto:
  "map_option results (returned (fst (orchestrateAnalysis example_a2a_env ''x'' [''__proto__''] None)))
     = Some []"
  by (simp add: orchestrateAnalysis_def example_a2a_env_def settled_def settle_type_def returned_def
      js_assign_def put_own_def new_object_def setter_reached_def upt_rec)

lemma a2a_results_index_order:
  "map_option (\<lambda>r. map fst (results r))
     (returned (fst (orchestrateAnalysis example_a2a_env ''x'' [''risk_assessment'', ''10''] None)))
     = Some [''10'', ''risk_assessment'']"
  by (simp add: orchestrateAnalysis_def example_a2a_env_def settled_def settle_type_def returned_def
      js_assign_def put_own_def new_object_def setter_reached_def is_array_index_def is_digit_def
      decimal_value_def digit_value_def upt_rec)















section \<open>Tool names\<close>

text \<open>The Supervisor: when the payloads of the calls that resolved can be read and name
  their tools by primitive values (strings), \<^verbatim>\<open>toolsUsed\<close> holds no name twice and holds
  exactly the names those payloads report; rejected calls add nothing.\<close>

lemma forEach_tool_ok:
  "snd (forEach_tool ts tools) = None \<Longrightarrow>
   list_all is_primitive (map (\<lambda>t. js_get_opt t ''name'') ts) \<Longrightarrow> distinct tools \<Longrightarrow>
   distinct (fst (forEach_tool ts tools))
   \<and> set (fst (forEach_tool ts tools)) = set tools \<union> set (map (\<lambda>t. js_get_opt t ''name'') ts)"
proof (induction ts arbitrary: tools)
  case Nil
  then show ?case by simp
next
  case (Cons t ts)
  from Cons.prems(1) have v: "is_value t"
    by (cases t) (auto simp: is_value_def)
  let ?n = "js_get_opt t ''name''"
  let ?tools = "if js_includes tools ?n then tools else tools @ [?n]"
  have step: "forEach_tool (t # ts) tools = forEach_tool ts ?tools"
    by (simp add: js_get_value [OF v])
  have prim: "is_primitive ?n" using Cons.prems(2) by simp
  have d: "distinct ?tools" using Cons.prems(3) prim by (simp add: js_includes_def)
  have s: "set ?tools = insert ?n (set tools)" using prim by (auto simp: js_includes_def)
  have "snd (forEach_tool ts ?tools) = None" using Cons.prems(1) unfolding step .
  moreover have "list_all is_primitive (map (\<lambda>t. js_get_opt t ''name'') ts)"
    using Cons.prems(2) by simp
  ultimately have "distinct (fst (forEach_tool ts ?tools))
   \<and> set (fst (forEach_tool ts ?tools)) = set ?tools \<union> set (map (\<lambda>t. js_get_opt t ''name'') ts)"
    using d by (rule Cons.IH)
  then show ?case unfolding step s by auto
qed

lemma collect_tools_ok:
  assumes ok: "tools_error d = None"
    and prim: "list_all is_primitive (tool_names d)"
    and dist: "distinct tools"
  shows "distinct (fst (collect_tools d tools))
         \<and> set (fst (collect_tools d tools)) = set tools \<union> set (tool_names d)"
proof -
  from ok have v: "is_value d"
    by (cases d) (auto simp: tools_error_def collect_tools_def is_value_def)
  let ?tu = "js_get_opt d ''tools_used''"
  show ?thesis
  proof (cases "truthy ?tu")
    case False
    then have "tool_names d = []" by (cases ?tu) (auto simp: tool_names_def)
    with False dist show ?thesis by (simp add: collect_tools_def js_get_value [OF v])
  next
    case True
    with ok obtain ts where ts: "?tu = Arr ts"
      by (cases ?tu) (auto simp: tools_error_def collect_tools_def js_get_value [OF v])
    have c: "collect_tools d tools = forEach_tool ts tools"
      by (simp add: collect_tools_def js_get_value [OF v] ts)
    have "snd (forEach_tool ts tools) = None"
      using collect_tools_error [of d tools] ok c by simp
    moreover have "list_all is_primitive (map (\<lambda>t. js_get_opt t ''name'') ts)"
      using prim by (simp add: tool_names_def ts)
    ultimately show ?thesis
      unfolding c using dist forEach_tool_ok by (simp add: tool_names_def ts)
  qed
qed

lemma settle_agent_tools:
  assumes good: "case reply env a of
                   Resolved d \<Rightarrow> tools_error d = None \<and> list_all is_primitive (tool_names d)
                 | Rejected e \<Rightarrow> True"
    and dist: "distinct tools"
  shows "distinct (fst (snd (settle_agent env a (obj, tools, fx))))
         \<and> set (fst (snd (settle_agent env a (obj, tools, fx))))
             = set tools \<union> (case reply env a of Resolved d \<Rightarrow> set (tool_names d) | Rejected e \<Rightarrow> {})"
proof (cases "reply env a")
  case (Rejected e)
  with dist show ?thesis by (simp add: settle_agent_def)
next
  case (Resolved d)
  with good have ok: "tools_error d = None" and prim: "list_all is_primitive (tool_names d)"
    by simp_all
  obtain tools' err where c: "collect_tools d tools = (tools', err)"
    by (cases "collect_tools d tools")
  with collect_tools_error [of d tools] ok have err: "err = None" by simp
  from collect_tools_ok [OF ok prim dist] c Resolved show ?thesis
    by (simp add: settle_agent_def err)
qed

lemma fold_settle_tools:
  "list_all (\<lambda>a. case reply env a of
                   Resolved d \<Rightarrow> tools_error d = None \<and> list_all is_primitive (tool_names d)
                 | Rejected e \<Rightarrow> True) ss \<Longrightarrow>
   distinct tools \<Longrightarrow>
   distinct (fst (snd (foldl (\<lambda>acc a. settle_agent env a acc) (obj, tools, fx) ss)))
   \<and> set (fst (snd (foldl (\<lambda>acc a. settle_agent env a acc) (obj, tools, fx) ss)))
       = set tools \<union> (\<Union>a\<in>set ss. case reply env a of Resolved d \<Rightarrow> set (tool_names d) | Rejected e \<Rightarrow> {})"
proof (induction ss arbitrary: obj tools fx)
  case Nil
  then show ?case by simp
next
  case (Cons a ss)
  obtain obj' tools' fx' where s: "settle_agent env a (obj, tools, fx) = (obj', tools', fx')"
    by (cases "settle_agent env a (obj, tools, fx)")
  from Cons.prems have good: "case reply env a of
                   Resolved d \<Rightarrow> tools_error d = None \<and> list_all is_primitive (tool_names d)
                 | Rejected e \<Rightarrow> True" by simp
  from settle_agent_tools [OF good Cons.prems(2), of obj fx] s
  have d': "distinct tools'"
    and s': "set tools' = set tools \<union> (case reply env a of Resolved d \<Rightarrow> set (tool_names d) | Rejected e \<Rightarrow> {})"
    by simp_all
  from Cons.prems have rest: "list_all (\<lambda>a. case reply env a of
                   Resolved d \<Rightarrow> tools_error d = None \<and> list_all is_primitive (tool_names d)
                 | Rejected e \<Rightarrow> True) ss" by simp
  from Cons.IH [OF rest d', of obj' fx'] show ?case
    by (simp add: s s' Un_assoc)
qed

lemma orchestrate_toolsUsed:
  assumes route: "routeTask t = Agents ids"
    and ret: "orchestrate env text t cid = (Returns r, fx)"
  shows "toolsUsed r =
         fst (snd (foldl (\<lambda>acc agentId. settle_agent env agentId acc)
                  (new_object, [], map (\<lambda>agentId. BackendCall agentId (analysis_payload text t cid)) ids)
                  (settled ids (settle_order env))))"
  using ret unfolding orchestrate_def route
  by (auto simp: Let_def split: prod.splits if_splits sum.splits)

lemma supervisor_toolsUsed:
  assumes route: "routeTask t = Agents ids"
    and ret: "orchestrate env text t cid = (Returns r, fx)"
    and good: "list_all (\<lambda>a. case reply env a of
                   Resolved d \<Rightarrow> tools_error d = None \<and> list_all is_primitive (tool_names d)
                 | Rejected e \<Rightarrow> True) ids"
  shows "distinct (toolsUsed r)
         \<and> set (toolsUsed r)
             = (\<Union>a\<in>set ids. case reply env a of Resolved d \<Rightarrow> set (tool_names d) | Rejected e \<Rightarrow> {})"
proof -
  have sub: "set ids \<subseteq> set (settle_order env)" using orchestrate_results(3) [OF route ret] .
  have set_ss: "set (settled ids (settle_order env)) = set ids" using sub by (rule settled_set)
  with good have good': "list_all (\<lambda>a. case reply env a of
                   Resolved d \<Rightarrow> tools_error d = None \<and> list_all is_primitive (tool_names d)
                 | Rejected e \<Rightarrow> True) (settled ids (settle_order env))"
    by (simp add: list_all_iff)
  show ?thesis
    unfolding orchestrate_toolsUsed [OF route ret]
    using fold_settle_tools [OF good', of "[]"] by (simp add: set_ss)
qed

text \<open>The A2A server: \<^verbatim>\<open>toolsUsed\<close> is the concatenation of the names the entries
  report, in the order of the entries, with every repetition kept.\<close>

lemma tools_error_value: "tools_error d = None \<Longrightarrow> is_value d"
  by (cases d) (auto simp: tools_error_def collect_tools_def is_value_def)

lemma forEach_tool_values: "snd (forEach_tool ts tools) = None \<Longrightarrow> list_all is_value ts"
proof (induction ts arbitrary: tools)
  case Nil
  then show ?case by simp
next
  case (Cons t ts)
  from Cons.prems have v: "is_value t" by (cases t) (auto simp: is_value_def)
  with Cons.prems Cons.IH show ?case by (simp add: js_get_value [OF v])
qed

lemma map_names_values:
  "list_all is_value ts \<Longrightarrow> map_names ts = Inr (map (\<lambda>t. js_get_opt t ''name'') ts)"
  by (induction ts) (auto simp: js_get_value)

lemma tools_used_readable:
  assumes ok: "tools_error d = None" and t: "truthy (js_get_opt d ''tools_used'')"
  shows "\<exists>ts. js_get_opt d ''tools_used'' = Arr ts \<and> list_all is_value ts"
proof -
  have v: "is_value d" using ok by (rule tools_error_value)
  from ok t obtain ts where ts: "js_get_opt d ''tools_used'' = Arr ts"
    by (cases "js_get_opt d ''tools_used''")
      (auto simp: tools_error_def collect_tools_def js_get_value [OF v])
  with ok have "snd (forEach_tool ts []) = None"
    by (simp add: tools_error_def collect_tools_def js_get_value [OF v])
  then have "list_all is_value ts" by (rule forEach_tool_values)
  with ts show ?thesis by blast
qed

lemma tool_names_falsy: "\<not> truthy (js_get_opt d ''tools_used'') \<Longrightarrow> tool_names d = []"
  by (cases "js_get_opt d ''tools_used''") (auto simp: tool_names_def)

lemma filter_tools_used_values:
  "list_all is_value vs \<Longrightarrow>
   filter_tools_used vs = Inr (filter (\<lambda>r. truthy (js_get_opt r ''tools_used'')) vs)"
  by (induction vs) (auto simp: js_get_value)

lemma flatMap_names_readable:
  "list_all (\<lambda>r. tools_error r = None \<and> truthy (js_get_opt r ''tools_used'')) rs \<Longrightarrow>
   flatMap_names rs = Inr (concat (map tool_names rs))"
proof (induction rs)
  case Nil
  then show ?case by simp
next
  case (Cons r rs)
  then have ok: "tools_error r = None" and t: "truthy (js_get_opt r ''tools_used'')" by simp_all
  from tools_used_readable [OF ok t] obtain ts
    where ts: "js_get_opt r ''tools_used'' = Arr ts" and vs: "list_all is_value ts" by blast
  have v: "is_value r" using ok by (rule tools_error_value)
  have tn: "tool_names r = map (\<lambda>t. js_get_opt t ''name'') ts"
    by (simp add: tool_names_def ts)
  from Cons have "flatMap_names rs = Inr (concat (map tool_names rs))" by simp
  then show ?case
    by (simp add: js_get_value [OF v] ts map_names_values [OF vs] tn)
qed

lemma concat_tool_names_filter:
  "concat (map tool_names (filter (\<lambda>r. truthy (js_get_opt r ''tools_used'')) vs))
   = concat (map tool_names vs)"
  by (induction vs) (auto simp: tool_names_falsy)

lemma a2a_tools_readable:
  assumes "list_all (\<lambda>r. tools_error r = None) vs"
  shows "filter_tools_used vs = Inr (filter (\<lambda>r. truthy (js_get_opt r ''tools_used'')) vs)"
    and "flatMap_names (filter (\<lambda>r. truthy (js_get_opt r ''tools_used'')) vs)
         = Inr (concat (map tool_names vs))"
proof -
  from assms have "list_all is_value vs"
    by (simp add: list_all_iff tools_error_value)
  then show "filter_tools_used vs = Inr (filter (\<lambda>r. truthy (js_get_opt r ''tools_used'')) vs)"
    by (rule filter_tools_used_values)
  from assms have "list_all (\<lambda>r. tools_error r = None \<and> truthy (js_get_opt r ''tools_used''))
                     (filter (\<lambda>r. truthy (js_get_opt r ''tools_used'')) vs)"
    by (simp add: list_all_iff)
  then show "flatMap_names (filter (\<lambda>r. truthy (js_get_opt r ''tools_used'')) vs)
         = Inr (concat (map tool_names vs))"
    by (simp add: flatMap_names_readable concat_tool_names_filter)
qed

lemma settle_type_recorded:
  "plain_key (ts ! i) \<Longrightarrow>
   settle_type env ts i (proto, res) = (proto, obj_set res (ts ! i) (a2a_recorded (reply env i)))"
  by (simp add: settle_type_def a2a_recorded_def js_assign_plain split: outcome.splits)

lemma fold_settle_type_results:
  "distinct (map (\<lambda>i. ts ! i) js) \<Longrightarrow> list_all (\<lambda>i. plain_key (ts ! i)) js \<Longrightarrow>
   (\<lambda>i. ts ! i) ` set js \<inter> fst ` set res = {} \<Longrightarrow>
   foldl (\<lambda>acc i. settle_type env ts i acc) (proto, res) js
     = (proto, res @ map (\<lambda>i. (ts ! i, a2a_recorded (reply env i))) js)"
proof (induction js arbitrary: res)
  case Nil
  then show ?case by simp
next
  case (Cons j js)
  from Cons.prems have fresh: "ts ! j \<notin> fst ` set res" and plain: "plain_key (ts ! j)" by auto
  let ?res = "res @ [(ts ! j, a2a_recorded (reply env j))]"
  have step: "settle_type env ts j (proto, res) = (proto, ?res)"
    by (simp add: settle_type_recorded [OF plain] obj_set_new [OF fresh])
  have "distinct (map (\<lambda>i. ts ! i) js)" using Cons.prems by simp
  moreover have "list_all (\<lambda>i. plain_key (ts ! i)) js" using Cons.prems by simp
  moreover have "(\<lambda>i. ts ! i) ` set js \<inter> fst ` set ?res = {}"
    using Cons.prems by auto
  ultimately have "foldl (\<lambda>acc i. settle_type env ts i acc) (proto, ?res) js
     = (proto, ?res @ map (\<lambda>i. (ts ! i, a2a_recorded (reply env i))) js)"
    by (rule Cons.IH)
  then show ?case by (simp add: step)
qed

lemma a2a_recorded_readable:
  "(case out of Resolved d \<Rightarrow> tools_error d = None | Rejected e \<Rightarrow> True) \<Longrightarrow>
   tools_error (a2a_recorded out) = None"
  by (cases out) (simp_all add: a2a_recorded_def tools_error_def collect_tools_def)

text \<open>The fan-out of the A2A server isolates failed calls in the same way, when the
  analysis types asked for are distinct plain keys and the payloads of the calls that
  succeed can be read: it returns with one entry per analysis type, \<^verbatim>\<open>{error: message}\<close>
  for a call that failed and the payload for one that succeeded.\<close>

lemma orchestrateAnalysis_isolates_failures:
  assumes dist: "distinct ts"
    and plain: "list_all plain_key ts"
    and all_settle: "set [0..<length ts] \<subseteq> set (settle_order env)"
    and readable: "list_all (\<lambda>i. case reply env i of
                                  Resolved d \<Rightarrow> tools_error d = None
                                | Rejected e \<Rightarrow> True) [0..<length ts]"
  shows "\<exists>r fx. orchestrateAnalysis env text ts cid = (Returns r, fx)
           \<and> length (results r) = length ts
           \<and> set (map fst (results r)) = set ts
           \<and> list_all (\<lambda>i. map_of (results r) (ts ! i) =
                 Some (case reply env i of
                         Resolved d \<Rightarrow> d
                       | Rejected e \<Rightarrow> Obj [(''error'', Str (message e))]))
               [0..<length ts]
           \<and> toolsUsed r = concat (map (\<lambda>entry. tool_names (snd entry)) (results r))"
proof -
  let ?js = "settled [0..<length ts] (settle_order env)"
  let ?res = "map (\<lambda>i. (ts ! i, a2a_recorded (reply env i))) ?js"
  have js_set: "set ?js = set [0..<length ts]" using all_settle by (rule settled_set)
  have js_dist: "distinct ?js" by (rule settled_distinct)
  have js_len: "length ?js = length ts"
    using settled_length [OF _ all_settle] by simp
  have "inj_on (\<lambda>i. ts ! i) (set ?js)"
    unfolding js_set using dist by (auto simp: inj_on_def nth_eq_iff_index_eq)
  with js_dist have keys_dist: "distinct (map (\<lambda>i. ts ! i) ?js)"
    by (simp add: distinct_map)
  have keys_plain: "list_all (\<lambda>i. plain_key (ts ! i)) ?js"
    using plain js_set by (auto simp: list_all_iff)
  have fold: "foldl (\<lambda>acc i. settle_type env ts i acc) new_object ?js = (ObjectPrototype, ?res)"
    unfolding new_object_def
    using fold_settle_type_results [OF keys_dist keys_plain, of "[]" env ObjectPrototype] by simp
  have keys: "map fst ?res = map (\<lambda>i. ts ! i) ?js" by (simp add: comp_def)
  define vs where "vs = map snd ?res"
  have "list_all (\<lambda>r. tools_error r = None) vs"
    unfolding vs_def using readable js_set
    by (auto simp: list_all_iff intro!: a2a_recorded_readable)
  note tools = a2a_tools_readable [OF this]
  let ?r = "\<lparr>taskId = new_uuid env, agents = ts, results = ?res,
             processingTime = end_time env - start_time env,
             toolsUsed = concat (map tool_names vs)\<rparr>"
  have ret: "orchestrateAnalysis env text ts cid
             = (Returns ?r, map (\<lambda>t. BackendCall t (analysis_payload text t cid)) ts)"
    unfolding orchestrateAnalysis_def Let_def fold snd_conv vs_def [symmetric]
    using all_settle by (simp add: tools del: set_upt)
  have "set (map fst ?res) = (\<lambda>i. ts ! i) ` set [0..<length ts]"
    unfolding keys using js_set by simp
  also have "\<dots> = set ts" by (metis map_nth set_map)
  finally have key_set: "set (map fst ?res) = set ts" .
  have entries: "list_all (\<lambda>i. map_of ?res (ts ! i) = Some (a2a_recorded (reply env i)))
                   [0..<length ts]"
  proof -
    have "\<And>i. i \<in> set ?js \<Longrightarrow> map_of ?res (ts ! i) = Some (a2a_recorded (reply env i))"
    proof -
      fix i assume "i \<in> set ?js"
      then have "(ts ! i, a2a_recorded (reply env i)) \<in> set ?res" by auto
      moreover have "distinct (map fst ?res)" unfolding keys by (rule keys_dist)
      ultimately show "map_of ?res (ts ! i) = Some (a2a_recorded (reply env i))"
        by (simp only: map_of_eq_Some_iff)
    qed
    then show ?thesis unfolding list_all_iff js_set [symmetric] by blast
  qed
  have "length (results ?r) = length ts" by (simp add: js_len)
  moreover have "set (map fst (results ?r)) = set ts" using key_set by simp
  moreover have "list_all (\<lambda>i. map_of (results ?r) (ts ! i) =
                 Some (case reply env i of
                         Resolved d \<Rightarrow> d
                       | Rejected e \<Rightarrow> Obj [(''error'', Str (message e))]))
               [0..<length ts]"
    using entries by (simp add: a2a_recorded_def)
  moreover have "toolsUsed ?r = concat (map (\<lambda>entry. tool_names (snd entry)) (results ?r))"
    by (simp add: vs_def comp_def)
  ultimately show ?thesis using ret by blast
qed

text \<open>When the payload of a call that succeeded is \<^verbatim>\<open>null\<close>, the A2A fan-out throws
  while it collects the tool names, after every call has settled.\<close>

lemma orchestrateAnalysis_null_payload:
  "fst (orchestrateAnalysis (example_a2a_env\<lparr>reply := (\<lambda>i. Resolved Null)\<rparr>) ''x''
          [''risk_assessment''] None)
   = Throws (TypeError (''Cannot read properties of null (reading ''
                        @ [CHR 0x27] @ ''tools_used'' @ [CHR 0x27] @ '')''))"
  by (simp add: orchestrateAnalysis_def example_a2a_env_def settled_def settle_type_def
      js_assign_def put_own_def new_object_def is_array_index_def is_digit_def upt_rec)

text \<open>
  C7.  The claim: the \<^verbatim>\<open>toolsUsed\<close> of every orchestration holds no tool name twice.
  The A2A server's \<^verbatim>\<open>orchestrateAnalysis\<close> evaluated on two analysis types whose
  payloads both report \<^verbatim>\<open>rag_search_tool\<close>: the name is returned twice.
\<close>

theorem a2a_toolsUsed_repeats:
  "map_option toolsUsed
     (returned (fst (orchestrateAnalysis example_a2a_env ''x'' [''case_analysis'', ''legal_research''] None)))
   = Some [Str ''rag_search_tool'', Str ''rag_search_tool'']"
  by (simp add: orchestrateAnalysis_def example_a2a_env_def settled_def settle_type_def returned_def
      js_assign_def put_own_def new_object_def is_array_index_def is_digit_def upt_rec)


section \<open>The task store\<close>

lemma status_writes_append:
  "status_writes tid (xs @ ys) = status_writes tid xs @ status_writes tid ys"
  by (induction tid xs rule: status_writes.induct) auto

lemma axios_posts_append:
  "axios_posts tid (xs @ ys) = axios_posts tid xs @ axios_posts tid ys"
  by (induction tid xs rule: axios_posts.induct) auto

lemma update_task_fields [simp]:
  "server_tasks (update_task k f s) tid
     = (if tid = k then map_option f (server_tasks s tid) else server_tasks s tid)"
  "server_agents (update_task k f s) = server_agents s"
  "awaiting (update_task k f s) = awaiting s"
  "trace (update_task k f s) = trace s"
  "clock (update_task k f s) = clock s"
  "uuids (update_task k f s) = uuids s"
  by (auto simp: update_task_def split: option.splits)

lemma assign_status_fields [simp]:
  "server_tasks (assign_status k st s) tid
     = (if tid = k then map_option (\<lambda>task. task\<lparr>t_status := st\<rparr>) (server_tasks s tid)
        else server_tasks s tid)"
  "server_agents (assign_status k st s) = server_agents s"
  "awaiting (assign_status k st s) = awaiting s"
  "trace (assign_status k st s) = trace s @ [StatusWrite k st]"
  "clock (assign_status k st s) = clock s"
  "uuids (assign_status k st s) = uuids s"
  by (auto simp: assign_status_def)

lemma processTask_catch_fields [simp]:
  "server_tasks (processTask_catch k e s) tid
     = (if tid = k
        then map_option (\<lambda>task. task\<lparr>t_status := failed,
               t_error := Some (js_or (case response_data e of None \<Rightarrow> Undefined
                                        | Some d \<Rightarrow> js_get_opt d ''error'') (Str (message e)))\<rparr>)
               (server_tasks s tid)
        else server_tasks s tid)"
  "server_agents (processTask_catch k e s) = server_agents s"
  "awaiting (processTask_catch k e s) = awaiting s"
  "trace (processTask_catch k e s) = trace s @ [StatusWrite k failed]"
  "clock (processTask_catch k e s) = clock s"
  "uuids (processTask_catch k e s) = uuids s"
  by (auto simp: processTask_catch_def map_option_case split: option.splits)

lemma task_request_status [simp]: "task_request (task\<lparr>t_status := st\<rparr>) = task_request task"
  by (simp add: task_request_def split: sum.splits)

text \<open>What processTask does, by cases.\<close>

lemma processTask_unknown_agent:
  assumes "server_tasks s k = Some task" "server_agents s (t_agentId task) = None"
  shows "processTask k s =
         processTask_catch k (Thrown (''Agent not found: '' @ t_agentId task) None)
           (assign_status k in_progress s)"
  using assms by (simp add: processTask_def Let_def)

lemma processTask_unreadable:
  assumes "server_tasks s k = Some task" "server_agents s (t_agentId task) = Some agent"
    "task_request task = Inl e"
  shows "processTask k s = processTask_catch k e (assign_status k in_progress s)"
  using assms by (simp add: processTask_def Let_def)

lemma processTask_calls:
  assumes "server_tasks s k = Some task" "server_agents s (t_agentId task) = Some agent"
    "task_request task = Inr payload"
  shows "processTask k s =
         (assign_status k in_progress s)
           \<lparr>awaiting := awaiting s @ [k],
            trace := trace s @ [StatusWrite k in_progress, AxiosPost k payload]\<rparr>"
  using assms by (simp add: processTask_def Let_def)




lemma task_request_readable:
  "is_value (t_input task) \<Longrightarrow>
   task_request task = Inr (request_payload (t_type task) (t_input task))"
  by (simp add: task_request_def request_payload_def js_get_value)

lemma task_request_unreadable:
  "\<not> is_value (t_input task) \<Longrightarrow> task_request task = Inl (input_unreadable (t_input task))"
  by (cases "t_input task") (auto simp: task_request_def is_value_def input_unreadable_def)

text \<open>POST /tasks, by cases.\<close>

lemma post_tasks_unknown_agent:
  assumes "server_agents s a = None"
  shows "snd (post_tasks a ty inp s) =
         s\<lparr>uuids := Suc (uuids s),
           server_tasks := (server_tasks s)(uuids s \<mapsto>
             \<lparr>t_id = uuids s, t_agentId = a, t_type = ty, t_input = inp, t_status = failed,
              t_result = None, t_error = Some (Str (''Agent not found: '' @ a)),
              t_createdAt = clock s, t_completedAt = None\<rparr>),
           trace := trace s @ [StatusWrite (uuids s) pending, StatusWrite (uuids s) in_progress,
                               StatusWrite (uuids s) failed]\<rparr>"
  using assms
  by (simp add: post_tasks_def Let_def processTask_def processTask_catch_def assign_status_def
      update_task_def js_or_def)

lemma post_tasks_unreadable:
  assumes "server_agents s a = Some agent" and "\<not> is_value inp"
  shows "snd (post_tasks a ty inp s) =
         s\<lparr>uuids := Suc (uuids s),
           server_tasks := (server_tasks s)(uuids s \<mapsto>
             \<lparr>t_id = uuids s, t_agentId = a, t_type = ty, t_input = inp, t_status = failed,
              t_result = None, t_error = Some (Str (message (input_unreadable inp))),
              t_createdAt = clock s, t_completedAt = None\<rparr>),
           trace := trace s @ [StatusWrite (uuids s) pending, StatusWrite (uuids s) in_progress,
                               StatusWrite (uuids s) failed]\<rparr>"
  using assms
  by (simp add: post_tasks_def Let_def processTask_def processTask_catch_def assign_status_def
      update_task_def task_request_unreadable input_unreadable_def TypeError_def js_or_def)

lemma post_tasks_calls:
  assumes "server_agents s a = Some agent" and "is_value inp"
  shows "snd (post_tasks a ty inp s) =
         s\<lparr>uuids := Suc (uuids s),
           server_tasks := (server_tasks s)(uuids s \<mapsto>
             \<lparr>t_id = uuids s, t_agentId = a, t_type = ty, t_input = inp, t_status = in_progress,
              t_result = None, t_error = None,
              t_createdAt = clock s, t_completedAt = None\<rparr>),
           awaiting := awaiting s @ [uuids s],
           trace := trace s @ [StatusWrite (uuids s) pending, StatusWrite (uuids s) in_progress,
                               AxiosPost (uuids s) (request_payload ty inp)]\<rparr>"
  using assms
  by (simp add: post_tasks_def Let_def processTask_def processTask_catch_def assign_status_def
      update_task_def task_request_readable)

text \<open>The settling of a task's backend call, by cases.\<close>

lemma settles_resolved:
  assumes "k \<in> set (awaiting s)" "server_tasks s k = Some task"
  shows "step (BackendSettles k (Resolved d)) s =
         s\<lparr>awaiting := removeAll k (awaiting s),
           server_tasks := (server_tasks s)(k \<mapsto>
             task\<lparr>t_result := Some d, t_status := completed, t_completedAt := Some (clock s)\<rparr>),
           trace := trace s @ [StatusWrite k completed,
             RedisPublish ''a2a:task_complete''
               (task\<lparr>t_result := Some d, t_status := completed, t_completedAt := Some (clock s)\<rparr>)]\<rparr>"
  using assms
  by (simp add: step_def processTask_resume_def Let_def assign_status_def update_task_def)

lemma settles_rejected:
  assumes "k \<in> set (awaiting s)" "server_tasks s k = Some task"
  shows "step (BackendSettles k (Rejected e)) s =
         s\<lparr>awaiting := removeAll k (awaiting s),
           server_tasks := (server_tasks s)(k \<mapsto>
             task\<lparr>t_status := failed,
                  t_error := Some (js_or (case response_data e of None \<Rightarrow> Undefined
                                          | Some d \<Rightarrow> js_get_opt d ''error'') (Str (message e)))\<rparr>),
           trace := trace s @ [StatusWrite k failed]\<rparr>"
  using assms
  by (simp add: step_def processTask_resume_def processTask_catch_def assign_status_def
      update_task_def)


lemma register_fields [simp]:
  "server_tasks (snd (register_agent body s)) = server_tasks s"
  "awaiting (snd (register_agent body s)) = awaiting s"
  "trace (snd (register_agent body s)) = trace s"
  "clock (snd (register_agent body s)) = clock s"
  by (simp_all add: register_agent_def Let_def)

lemma register_uuids: "uuids s \<le> uuids (snd (register_agent body s))"
  by (simp add: register_agent_def Let_def)

lemma deregister_fields [simp]:
  "server_tasks (snd (deregister_agent aid s)) = server_tasks s"
  "awaiting (snd (deregister_agent aid s)) = awaiting s"
  "trace (snd (deregister_agent aid s)) = trace s"
  "clock (snd (deregister_agent aid s)) = clock s"
  "uuids (snd (deregister_agent aid s)) = uuids s"
  by (simp_all add: deregister_agent_def split: option.splits)

lemma post_tasks_cases:
  obtains (unknown) "server_agents s a = None"
  | (unreadable) agent where "server_agents s a = Some agent" "\<not> is_value inp"
  | (calls) agent where "server_agents s a = Some agent" "is_value inp"
  by (cases "server_agents s a") auto

text \<open>Ids and the clock never go back; a happening that is neither the creation of a
  task nor the settling of its backend call leaves the task and its history as they are.\<close>

lemma uuids_mono: "uuids s \<le> uuids (step h s)"
proof (cases h)
  case (PostTasks a ty inp)
  show ?thesis
    by (cases rule: post_tasks_cases [where s = s and a = a and inp = inp])
      (simp_all add: PostTasks step_def post_tasks_unknown_agent post_tasks_unreadable
        post_tasks_calls)
next
  case (BackendSettles k out)
  then show ?thesis
    by (cases out)
      (simp_all add: step_def processTask_resume_def Let_def split: option.splits)
qed (simp_all add: step_def register_uuids)

lemma clock_mono: "clock s \<le> clock (step h s)"
proof (cases h)
  case (PostTasks a ty inp)
  show ?thesis
    by (cases rule: post_tasks_cases [where s = s and a = a and inp = inp])
      (simp_all add: PostTasks step_def post_tasks_unknown_agent post_tasks_unreadable
        post_tasks_calls)
next
  case (BackendSettles k out)
  then show ?thesis
    by (cases out)
      (simp_all add: step_def processTask_resume_def Let_def split: option.splits)
qed (simp_all add: step_def)

lemma step_frame:
  assumes "\<forall>a ty inp. h = PostTasks a ty inp \<longrightarrow> tid \<noteq> uuids s"
    and "\<forall>out. h = BackendSettles tid out \<longrightarrow> tid \<notin> set (awaiting s)"
  shows "server_tasks (step h s) tid = server_tasks s tid"
    and "(tid \<in> set (awaiting (step h s))) = (tid \<in> set (awaiting s))"
    and "status_writes tid (trace (step h s)) = status_writes tid (trace s)"
    and "axios_posts tid (trace (step h s)) = axios_posts tid (trace s)"
proof -
  have "server_tasks (step h s) tid = server_tasks s tid
     \<and> (tid \<in> set (awaiting (step h s))) = (tid \<in> set (awaiting s))
     \<and> status_writes tid (trace (step h s)) = status_writes tid (trace s)
     \<and> axios_posts tid (trace (step h s)) = axios_posts tid (trace s)"
  proof (cases h)
    case (PostTasks a ty inp)
    with assms(1) have ne: "tid \<noteq> uuids s" by simp
    show ?thesis
    proof (cases rule: post_tasks_cases [where s = s and a = a and inp = inp])
      case unknown
      with ne show ?thesis
        by (simp add: PostTasks step_def post_tasks_unknown_agent status_writes_append
            axios_posts_append)
    next
      case (unreadable agent)
      with ne show ?thesis
        by (simp add: PostTasks step_def post_tasks_unreadable status_writes_append
            axios_posts_append)
    next
      case (calls agent)
      with ne show ?thesis
        by (simp add: PostTasks step_def post_tasks_calls status_writes_append
            axios_posts_append)
    qed
  next
    case (PostRegister body)
    then show ?thesis by (simp add: step_def)
  next
    case (DeleteAgent aid)
    then show ?thesis by (simp add: step_def)
  next
    case (BackendSettles k out)
    show ?thesis
    proof (cases "k \<in> set (awaiting s)")
      case False
      with BackendSettles show ?thesis by (simp add: step_def)
    next
      case True
      with assms(2) BackendSettles have ne: "tid \<noteq> k" by auto
      show ?thesis
      proof (cases "server_tasks s k")
        case None
        with True ne show ?thesis
          unfolding BackendSettles
          by (cases out)
            (simp_all add: step_def processTask_resume_def processTask_catch_def Let_def
              status_writes_append axios_posts_append)
      next
        case (Some task)
        with True ne show ?thesis
          unfolding BackendSettles
          by (cases out)
            (simp_all add: settles_resolved settles_rejected status_writes_append
              axios_posts_append)
      qed
    qed
  next
    case (Tick d)
    then show ?thesis by (simp add: step_def)
  qed
  then show "server_tasks (step h s) tid = server_tasks s tid"
    and "(tid \<in> set (awaiting (step h s))) = (tid \<in> set (awaiting s))"
    and "status_writes tid (trace (step h s)) = status_writes tid (trace s)"
    and "axios_posts tid (trace (step h s)) = axios_posts tid (trace s)"
    by simp_all
qed

lemma task_state_ok_frame:
  assumes ok: "task_state_ok s tid"
    and same: "server_tasks s' tid = server_tasks s tid"
      "(tid \<in> set (awaiting s')) = (tid \<in> set (awaiting s))"
      "status_writes tid (trace s') = status_writes tid (trace s)"
      "axios_posts tid (trace s') = axios_posts tid (trace s)"
    and mono: "uuids s \<le> uuids s'"
  shows "task_state_ok s' tid"
  using ok mono unfolding task_state_ok_def same
  by (auto split: option.splits)

lemma store_inv_step:
  assumes inv: "store_inv s"
  shows "store_inv (step h s)"
  unfolding store_inv_def
proof (intro allI)
  fix tid
  from inv have fresh: "uuids s \<le> tid \<Longrightarrow> server_tasks s tid = None"
    and ok: "task_state_ok s tid"
    by (simp_all add: store_inv_def)
  consider (created) a ty inp where "h = PostTasks a ty inp" "tid = uuids s"
    | (settles) out where "h = BackendSettles tid out" "tid \<in> set (awaiting s)"
    | (other) "\<forall>a ty inp. h = PostTasks a ty inp \<longrightarrow> tid \<noteq> uuids s"
        "\<forall>out. h = BackendSettles tid out \<longrightarrow> tid \<notin> set (awaiting s)"
    by blast
  then show "(uuids (step h s) \<le> tid \<longrightarrow> server_tasks (step h s) tid = None)
             \<and> task_state_ok (step h s) tid"
  proof cases
    case created
    from fresh created(2) have none: "server_tasks s tid = None" by simp
    with ok have idle: "tid \<notin> set (awaiting s)" and w: "status_writes tid (trace s) = []"
      and p: "axios_posts tid (trace s) = []"
      by (simp_all add: task_state_ok_def)
    show ?thesis
      unfolding created(1)
      by (cases rule: post_tasks_cases [where s = s and a = a and inp = inp])
        (use idle w created(2) in
          \<open>simp_all add: step_def post_tasks_unknown_agent post_tasks_unreadable post_tasks_calls
             task_state_ok_def status_writes_append\<close>)
  next
    case settles
    with ok obtain task where task: "server_tasks s tid = Some task"
      by (cases "server_tasks s tid") (auto simp: task_state_ok_def)
    with ok settles(2) have lt: "tid < uuids s"
      and w: "status_writes tid (trace s) = [pending, in_progress]"
      by (simp_all add: task_state_ok_def)
    show ?thesis
      unfolding settles(1)
      by (cases out)
        (use lt w in
          \<open>simp_all add: settles_resolved [OF settles(2) task] settles_rejected [OF settles(2) task]
             task_state_ok_def status_writes_append\<close>)
  next
    case other
    note frame = step_frame [OF other]
    have "task_state_ok (step h s) tid"
      using ok frame uuids_mono by (rule task_state_ok_frame)
    moreover have "uuids (step h s) \<le> tid \<longrightarrow> server_tasks (step h s) tid = None"
      using fresh uuids_mono [of s h] frame(1) by auto
    ultimately show ?thesis by simp
  qed
qed

lemma store_inv_new: "store_inv (new_server now)"
  by (simp add: store_inv_def task_state_ok_def new_server_def)

lemma run_snoc: "run (hs @ [h]) s = step h (run hs s)"
  by (simp add: run_def)

lemma store_inv_run: "store_inv s \<Longrightarrow> store_inv (run hs s)"
  by (induction hs rule: rev_induct) (simp_all add: run_def store_inv_step)


lemma trace_grows: "\<exists>new. trace (step h s) = trace s @ new"
proof (cases h)
  case (PostTasks a ty inp)
  show ?thesis
    by (cases rule: post_tasks_cases [where s = s and a = a and inp = inp])
      (simp_all add: PostTasks step_def post_tasks_unknown_agent post_tasks_unreadable
        post_tasks_calls)
next
  case (BackendSettles k out)
  then show ?thesis
    by (cases out)
      (simp_all add: step_def processTask_resume_def Let_def split: option.splits)
qed (simp_all add: step_def)

lemma run_append: "run (hs @ hs') s = run hs' (run hs s)"
  by (simp add: run_def)

lemma trace_run_grows: "\<exists>new. trace (run hs s) = trace s @ new"
proof (induction hs rule: rev_induct)
  case Nil
  then show ?case by (simp add: run_def)
next
  case (snoc h hs)
  from snoc obtain new where "trace (run hs s) = trace s @ new" by blast
  moreover from trace_grows obtain new' where
    "trace (step h (run hs s)) = trace (run hs s) @ new'" by blast
  ultimately show ?case by (simp add: run_snoc)
qed

text \<open>
  C2.  In every state the server reaches from its start, by requests, settlings of
  backend calls and the passing of time in any order, the assignments made so far to the
  status of any task are a beginning of the chain pending, in_progress, completed or of
  the chain pending, in_progress, failed: a task that is in the store has been assigned at
  least one status and holds the last one assigned, nothing is ever assigned after
  completed or failed, and the assignments made until a later state extend those made
  until now.
\<close>

theorem status_follows_chain:
  "follows_chain (status_writes tid (trace (run hs (new_server now))))
   \<and> (case server_tasks (run hs (new_server now)) tid of
        None \<Rightarrow> status_writes tid (trace (run hs (new_server now))) = []
      | Some task \<Rightarrow>
          status_writes tid (trace (run hs (new_server now))) \<noteq> []
          \<and> t_status task = last (status_writes tid (trace (run hs (new_server now)))))
   \<and> (\<exists>later. status_writes tid (trace (run (hs @ hs') (new_server now)))
                = status_writes tid (trace (run hs (new_server now))) @ later)"
proof -
  let ?s = "run hs (new_server now)"
  have "store_inv ?s" using store_inv_new by (rule store_inv_run)
  then have ok: "task_state_ok ?s tid" by (simp add: store_inv_def)
  then have "follows_chain (status_writes tid (trace ?s))"
    by (auto simp: task_state_ok_def follows_chain_def split: option.splits if_splits)
  moreover from ok have "case server_tasks ?s tid of
        None \<Rightarrow> status_writes tid (trace ?s) = []
      | Some task \<Rightarrow>
          status_writes tid (trace ?s) \<noteq> [] \<and> t_status task = last (status_writes tid (trace ?s))"
    by (auto simp: task_state_ok_def split: option.splits if_splits)
  moreover have "\<exists>later. status_writes tid (trace (run (hs @ hs') (new_server now)))
                = status_writes tid (trace ?s) @ later"
  proof -
    from trace_run_grows obtain new where "trace (run hs' ?s) = trace ?s @ new" by blast
    then show ?thesis by (simp add: run_append status_writes_append)
  qed
  ultimately show ?thesis by blast
qed

text \<open>
  C4.  The claim: the task in the response to POST /tasks is in status pending.  The
  code, at every request: the response is written after the part of \<^verbatim>\<open>processTask\<close>
  that runs before its first \<^verbatim>\<open>await\<close>, from the same task object, so the task in the
  response is in_progress (agent known, input readable) or already failed; it is never
  pending.
\<close>

theorem submit_response_status:
  "\<exists>task. fst (post_tasks a ty inp s) = Json 201 task
          \<and> t_status task = (if server_agents s a \<noteq> None \<and> is_value inp then in_progress else failed)
          \<and> t_status task \<noteq> pending"
  by (cases rule: post_tasks_cases [where s = s and a = a and inp = inp])
    (simp_all add: post_tasks_def Let_def processTask_def processTask_catch_def
      assign_status_def update_task_def task_request_unreadable task_request_readable)

text \<open>On a fresh server: the response for a known agent shows in_progress, the response
  for an unknown agent shows failed.\<close>

lemma submit_response_examples:
  "fst (post_tasks ''legal-analyst'' ''case_analysis'' (Obj [(''caseText'', Str ''x'')]) (new_server 0))
   = Json 201
       \<lparr>t_id = 0, t_agentId = ''legal-analyst'', t_type = ''case_analysis'',
        t_input = Obj [(''caseText'', Str ''x'')], t_status = in_progress,
        t_result = None, t_error = None, t_createdAt = 0, t_completedAt = None\<rparr>"
  "fst (post_tasks ''nonexistent-agent'' ''case_analysis'' (Obj [(''caseText'', Str ''x'')]) (new_server 0))
   = Json 201
       \<lparr>t_id = 0, t_agentId = ''nonexistent-agent'', t_type = ''case_analysis'',
        t_input = Obj [(''caseText'', Str ''x'')], t_status = failed,
        t_result = None, t_error = Some (Str ''Agent not found: nonexistent-agent''),
        t_createdAt = 0, t_completedAt = None\<rparr>"
  by (simp_all add: post_tasks_def Let_def processTask_def processTask_catch_def
      assign_status_def update_task_def task_request_def new_server_def defaultAgents_def
      js_or_def)

lemma finished_task_stays:
  assumes "tid < uuids s" "tid \<notin> set (awaiting s)"
  shows "tid < uuids (run hs s) \<and> tid \<notin> set (awaiting (run hs s))
         \<and> server_tasks (run hs s) tid = server_tasks s tid
         \<and> status_writes tid (trace (run hs s)) = status_writes tid (trace s)
         \<and> axios_posts tid (trace (run hs s)) = axios_posts tid (trace s)"
proof (induction hs rule: rev_induct)
  case Nil
  from assms show ?case by (simp add: run_def)
next
  case (snoc h hs)
  let ?s = "run hs s"
  from snoc have lt: "tid < uuids ?s" and idle: "tid \<notin> set (awaiting ?s)" by simp_all
  have "\<forall>a ty inp. h = PostTasks a ty inp \<longrightarrow> tid \<noteq> uuids ?s" using lt by simp
  moreover have "\<forall>out. h = BackendSettles tid out \<longrightarrow> tid \<notin> set (awaiting ?s)"
    using idle by simp
  ultimately have frame:
    "server_tasks (step h ?s) tid = server_tasks ?s tid"
    "(tid \<in> set (awaiting (step h ?s))) = (tid \<in> set (awaiting ?s))"
    "status_writes tid (trace (step h ?s)) = status_writes tid (trace ?s)"
    "axios_posts tid (trace (step h ?s)) = axios_posts tid (trace ?s)"
    by (rule step_frame)+
  from lt uuids_mono [of ?s h] have "tid < uuids (step h ?s)" by linarith
  with frame snoc show ?case by (simp add: run_snoc)
qed

lemma awaiting_task_stays:
  assumes "tid < uuids s" "tid \<in> set (awaiting s)" "unsettled tid hs"
  shows "tid < uuids (run hs s) \<and> tid \<in> set (awaiting (run hs s))
         \<and> server_tasks (run hs s) tid = server_tasks s tid
         \<and> status_writes tid (trace (run hs s)) = status_writes tid (trace s)
         \<and> axios_posts tid (trace (run hs s)) = axios_posts tid (trace s)
         \<and> clock s \<le> clock (run hs s)"
  using assms(3)
proof (induction hs rule: rev_induct)
  case Nil
  from assms show ?case by (simp add: run_def)
next
  case (snoc h hs)
  let ?s = "run hs s"
  from snoc.prems have rest: "unsettled tid hs"
    and h: "\<forall>out. h \<noteq> BackendSettles tid out"
    by (auto simp: unsettled_def)
  note IH = snoc.IH [OF rest]
  from IH have lt: "tid < uuids ?s" by simp
  have "\<forall>a ty inp. h = PostTasks a ty inp \<longrightarrow> tid \<noteq> uuids ?s" using lt by simp
  moreover have "\<forall>out. h = BackendSettles tid out \<longrightarrow> tid \<notin> set (awaiting ?s)"
    using h by simp
  ultimately have frame:
    "server_tasks (step h ?s) tid = server_tasks ?s tid"
    "(tid \<in> set (awaiting (step h ?s))) = (tid \<in> set (awaiting ?s))"
    "status_writes tid (trace (step h ?s)) = status_writes tid (trace ?s)"
    "axios_posts tid (trace (step h ?s)) = axios_posts tid (trace ?s)"
    by (rule step_frame)+
  from lt uuids_mono [of ?s h] have "tid < uuids (step h ?s)" by linarith
  moreover from IH clock_mono [of ?s h] have "clock s \<le> clock (step h ?s)" by linarith
  ultimately show ?case using frame IH by (simp add: run_snoc)
qed


lemma fresh_task:
  assumes "s = run hs (new_server now)"
  shows "uuids s \<notin> set (awaiting s)" "status_writes (uuids s) (trace s) = []"
    "axios_posts (uuids s) (trace s) = []"
proof -
  have "store_inv s" unfolding assms using store_inv_new by (rule store_inv_run)
  then have "server_tasks s (uuids s) = None" and "task_state_ok s (uuids s)"
    by (simp_all add: store_inv_def)
  then show "uuids s \<notin> set (awaiting s)" "status_writes (uuids s) (trace s) = []"
    "axios_posts (uuids s) (trace s) = []"
    by (simp_all add: task_state_ok_def)
qed

text \<open>
  C3.  A task submitted with an agent id that is not a key of the registry at that time
  is failed from then on, whatever happens later, with the error
  \<^verbatim>\<open>Agent not found: \<close> followed by that agent id; its status went through pending and
  in_progress, and no call to the analysis backend is ever made for it.
\<close>

theorem unknown_agent_task_fails:
  assumes "server_agents (run hs (new_server now)) a = None"
  shows "let s = run hs (new_server now);
             tid = uuids s;
             s' = run hs' (snd (post_tasks a ty inp s))
         in (\<exists>task. get_task tid s' = Json 200 task \<and> t_agentId task = a
                    \<and> t_status task = failed
                    \<and> t_error task = Some (Str (''Agent not found: '' @ a)))
            \<and> status_writes tid (trace s') = [pending, in_progress, failed]
            \<and> axios_posts tid (trace s') = []"
proof -
  define s where "s = run hs (new_server now)"
  define s1 where "s1 = snd (post_tasks a ty inp s)"
  let ?tid = "uuids s"
  note fresh = fresh_task [OF s_def]
  from assms have unknown: "server_agents s a = None" by (simp add: s_def)
  have s1: "s1 = s\<lparr>uuids := Suc (uuids s),
           server_tasks := (server_tasks s)(uuids s \<mapsto>
             \<lparr>t_id = uuids s, t_agentId = a, t_type = ty, t_input = inp, t_status = failed,
              t_result = None, t_error = Some (Str (''Agent not found: '' @ a)),
              t_createdAt = clock s, t_completedAt = None\<rparr>),
           trace := trace s @ [StatusWrite (uuids s) pending, StatusWrite (uuids s) in_progress,
                               StatusWrite (uuids s) failed]\<rparr>"
    unfolding s1_def using unknown by (rule post_tasks_unknown_agent)
  have "?tid < uuids s1" and "?tid \<notin> set (awaiting s1)"
    using fresh(1) by (simp_all add: s1)
  from finished_task_stays [OF this, of hs']
  have "server_tasks (run hs' s1) ?tid = server_tasks s1 ?tid"
    and "status_writes ?tid (trace (run hs' s1)) = status_writes ?tid (trace s1)"
    and "axios_posts ?tid (trace (run hs' s1)) = axios_posts ?tid (trace s1)"
    by simp_all
  moreover have "status_writes ?tid (trace s1) = [pending, in_progress, failed]"
    and "axios_posts ?tid (trace s1) = []"
    using fresh by (simp_all add: s1 status_writes_append axios_posts_append)
  ultimately show ?thesis
    unfolding Let_def s_def [symmetric] s1_def [symmetric]
    by (simp add: get_task_def s1)
qed

theorem unknown_agent_task_fails_witness:
  "server_agents (run [Tick 10] (new_server 0)) ''nonexistent-agent'' = None
   \<and> (let s = run [Tick 10] (new_server 0);
             tid = uuids s;
             s' = run [Tick 5, PostTasks ''legal-analyst'' ''case_analysis'' (Obj []),
                       BackendSettles 0 (Resolved Null)]
                    (snd (post_tasks ''nonexistent-agent'' ''case_analysis''
                            (Obj [(''caseText'', Str ''x'')]) s))
         in (\<exists>task. get_task tid s' = Json 200 task \<and> t_agentId task = ''nonexistent-agent''
                    \<and> t_status task = failed
                    \<and> t_error task = Some (Str (''Agent not found: '' @ ''nonexistent-agent'')))
            \<and> status_writes tid (trace s') = [pending, in_progress, failed]
            \<and> axios_posts tid (trace s') = [])"
proof -
  have h: "server_agents (run [Tick 10] (new_server 0)) ''nonexistent-agent'' = None"
    by (simp add: run_def step_def new_server_def defaultAgents_def)
  show ?thesis
    by (rule conjI [OF h unknown_agent_task_fails [OF h]])
qed

text \<open>
  C5.  A task submitted with an agent id that is a key of the registry at that time, and
  with an input that can be read (so that the backend call is made), whose backend call
  then resolves with the payload \<open>d\<close>: from the settling on, whatever happens later, the
  task is completed, its result is \<open>d\<close>, its completion time is the clock reading at
  the settling, which is not before its creation time, and the settling published the
  completed task on \<^verbatim>\<open>a2a:task_complete\<close>.  Later changes of the registry do not
  matter.  (The clock of the model never goes back.)
\<close>

theorem known_agent_task_completes:
  assumes "server_agents (run hs (new_server now)) a = Some agent"
    and "is_value inp"
    and "unsettled (uuids (run hs (new_server now))) hs'"
  shows "let s = run hs (new_server now);
             tid = uuids s;
             s2 = run hs' (snd (post_tasks a ty inp s));
             s3 = step (BackendSettles tid (Resolved d)) s2;
             s4 = run hs'' s3
         in \<exists>task. get_task tid s4 = Json 200 task
                \<and> t_status task = completed
                \<and> t_result task = Some d
                \<and> t_completedAt task = Some (clock s2)
                \<and> t_createdAt task \<le> clock s2
                \<and> trace s3 = trace s2 @ [StatusWrite tid completed,
                                           RedisPublish ''a2a:task_complete'' task]
                \<and> status_writes tid (trace s4) = [pending, in_progress, completed]
                \<and> axios_posts tid (trace s4) = [request_payload ty inp]"
proof -
  define s where "s = run hs (new_server now)"
  define s1 where "s1 = snd (post_tasks a ty inp s)"
  define s2 where "s2 = run hs' s1"
  define s3 where "s3 = step (BackendSettles (uuids s) (Resolved d)) s2"
  let ?tid = "uuids s"
  let ?task = "\<lparr>t_id = uuids s, t_agentId = a, t_type = ty, t_input = inp, t_status = in_progress,
              t_result = None, t_error = None,
              t_createdAt = clock s, t_completedAt = None\<rparr>"
  let ?done = "?task\<lparr>t_result := Some d, t_status := completed, t_completedAt := Some (clock s2)\<rparr>"
  note fresh = fresh_task [OF s_def]
  from assms(1) have known: "server_agents s a = Some agent" by (simp add: s_def)
  have s1: "s1 = s\<lparr>uuids := Suc (uuids s),
           server_tasks := (server_tasks s)(uuids s \<mapsto> ?task),
           awaiting := awaiting s @ [uuids s],
           trace := trace s @ [StatusWrite (uuids s) pending, StatusWrite (uuids s) in_progress,
                               AxiosPost (uuids s) (request_payload ty inp)]\<rparr>"
    unfolding s1_def using known assms(2) by (rule post_tasks_calls)
  have "?tid < uuids s1" and "?tid \<in> set (awaiting s1)" by (simp_all add: s1)
  moreover have "unsettled ?tid hs'" using assms(3) by (simp add: s_def)
  ultimately have stays: "?tid < uuids s2 \<and> ?tid \<in> set (awaiting s2)
         \<and> server_tasks s2 ?tid = server_tasks s1 ?tid
         \<and> status_writes ?tid (trace s2) = status_writes ?tid (trace s1)
         \<and> axios_posts ?tid (trace s2) = axios_posts ?tid (trace s1)
         \<and> clock s1 \<le> clock s2"
    unfolding s2_def by (rule awaiting_task_stays)
  then have waiting: "?tid \<in> set (awaiting s2)" and task2: "server_tasks s2 ?tid = Some ?task"
    by (simp_all add: s1)
  have s3: "s3 = s2\<lparr>awaiting := removeAll ?tid (awaiting s2),
           server_tasks := (server_tasks s2)(?tid \<mapsto> ?done),
           trace := trace s2 @ [StatusWrite ?tid completed,
                                RedisPublish ''a2a:task_complete'' ?done]\<rparr>"
    unfolding s3_def using waiting task2 by (rule settles_resolved)
  have "?tid < uuids s3" and "?tid \<notin> set (awaiting s3)"
    using stays by (simp_all add: s3)
  from finished_task_stays [OF this, of hs'']
  have "server_tasks (run hs'' s3) ?tid = server_tasks s3 ?tid"
    and "status_writes ?tid (trace (run hs'' s3)) = status_writes ?tid (trace s3)"
    and "axios_posts ?tid (trace (run hs'' s3)) = axios_posts ?tid (trace s3)"
    by simp_all
  moreover have "status_writes ?tid (trace s3) = [pending, in_progress, completed]"
    and "axios_posts ?tid (trace s3) = [request_payload ty inp]"
    using stays fresh by (simp_all add: s3 s1 status_writes_append axios_posts_append)
  moreover have "clock s \<le> clock s2" using stays by (simp add: s1)
  ultimately show ?thesis
    unfolding Let_def s_def [symmetric] s1_def [symmetric] s2_def [symmetric] s3_def [symmetric]
    by (simp add: get_task_def s3)
qed

theorem known_agent_task_completes_witness:
  "server_agents (run [Tick 10] (new_server 0)) ''legal-analyst'' = Some (hd defaultAgents)
   \<and> is_value (Obj [(''caseText'', Str ''x'')])
   \<and> unsettled (uuids (run [Tick 10] (new_server 0))) [Tick 7, DeleteAgent ''legal-analyst'']
   \<and> (let s = run [Tick 10] (new_server 0);
             tid = uuids s;
             s2 = run [Tick 7, DeleteAgent ''legal-analyst'']
                    (snd (post_tasks ''legal-analyst'' ''case_analysis''
                            (Obj [(''caseText'', Str ''x'')]) s));
             s3 = step (BackendSettles tid (Resolved (Obj [(''analysis'', Str ''ok'')]))) s2;
             s4 = run [Tick 1] s3
         in \<exists>task. get_task tid s4 = Json 200 task
                \<and> t_status task = completed
                \<and> t_result task = Some (Obj [(''analysis'', Str ''ok'')])
                \<and> t_completedAt task = Some (clock s2)
                \<and> t_createdAt task \<le> clock s2
                \<and> trace s3 = trace s2 @ [StatusWrite tid completed,
                                           RedisPublish ''a2a:task_complete'' task]
                \<and> status_writes tid (trace s4) = [pending, in_progress, completed]
                \<and> axios_posts tid (trace s4)
                    = [request_payload ''case_analysis'' (Obj [(''caseText'', Str ''x'')])])"
proof -
  have h1: "server_agents (run [Tick 10] (new_server 0)) ''legal-analyst'' = Some (hd defaultAgents)"
    by (simp add: run_def step_def new_server_def defaultAgents_def)
  have h2: "is_value (Obj [(''caseText'', Str ''x'')])"
    by (simp add: is_value_def)
  have h3: "unsettled (uuids (run [Tick 10] (new_server 0))) [Tick 7, DeleteAgent ''legal-analyst'']"
    by (simp add: unsettled_def)
  show ?thesis
    by (intro conjI h1 h2 h3 known_agent_task_completes [OF h1 h2 h3])
qed


end
